theory Spec2Isabelle
  imports Complex_Main "HOL-Library.Log_Nat"
begin

section \<open>Numbers and arrays of the source language\<close>

text \<open>
  The source is TypeScript. Its \<open>number\<close> is an IEEE 754 double: a finite value, an
  infinity or \<open>NaN\<close>. A finite value is carried as the rational it denotes, and every
  arithmetic operation rounds its exact result to the nearest double, a tie going to the
  even significand (\<open>rnd\<close>). Negative zero is not told apart from zero: the code never
  divides by a computed zero other than the sum of \<open>getColumnWidthRatios\<close>, which starts
  from \<open>0\<close> and so is never negative zero. Reading an array outside its bounds gives
  \<open>undefined\<close>; every such read in the code modelled here feeds arithmetic, where
  \<open>undefined\<close> behaves as \<open>NaN\<close>, so the read itself is modelled as \<open>NaN\<close>.
\<close>

datatype number = Num rat | PosInf | NegInf | NaN

text \<open>Rounding a rational to an integer, a tie going to the even one.\<close>

definition rhe :: "rat \<Rightarrow> int" where
  "rhe x =
     (let f = \<lfloor>x\<rfloor>; r = x - of_int f
      in if r < 1 / 2 then f
         else if 1 / 2 < r then f + 1
         else if even f then f else f + 1)"

text \<open>The binary exponent of a positive rational: \<open>2 powi expo x \<le> x < 2 powi (expo x + 1)\<close>.\<close>

definition expo :: "rat \<Rightarrow> int" where
  "expo x = (if 1 \<le> x then bitlen \<lfloor>x\<rfloor> - 1 else - bitlen (\<lceil>1 / x\<rceil> - 1))"

text \<open>
  The nearest double: 53 significant bits, the exponent of the last bit no less than
  \<open>-1074\<close>, and an infinity once the rounded value reaches \<open>2 ^ 1024\<close>.
\<close>

definition rnd :: "rat \<Rightarrow> number" where
  "rnd x =
     (if x = 0 then Num 0
      else
        let p = max (expo \<bar>x\<bar> - 52) (- 1074);
            r = of_int (rhe (x / 2 powi p)) * 2 powi p
        in if 2 ^ 1024 \<le> r then PosInf
           else if r \<le> - (2 ^ 1024) then NegInf
           else Num r)"

fun nneg :: "number \<Rightarrow> number" where
  "nneg (Num a) = Num (- a)"
| "nneg PosInf = NegInf"
| "nneg NegInf = PosInf"
| "nneg NaN = NaN"

fun nplus :: "number \<Rightarrow> number \<Rightarrow> number" where
  "nplus (Num a) (Num b) = rnd (a + b)"
| "nplus NaN _ = NaN"
| "nplus _ NaN = NaN"
| "nplus PosInf NegInf = NaN"
| "nplus NegInf PosInf = NaN"
| "nplus PosInf _ = PosInf"
| "nplus _ PosInf = PosInf"
| "nplus NegInf _ = NegInf"
| "nplus _ NegInf = NegInf"

definition nminus :: "number \<Rightarrow> number \<Rightarrow> number" where
  "nminus a b = nplus a (nneg b)"

text \<open>The sign of a number other than \<open>NaN\<close>: true when it is below zero.\<close>

fun negative :: "number \<Rightarrow> bool" where
  "negative (Num a) = (a < 0)"
| "negative NegInf = True"
| "negative _ = False"

definition infinity :: "bool \<Rightarrow> number" where
  "infinity neg = (if neg then NegInf else PosInf)"

fun ntimes :: "number \<Rightarrow> number \<Rightarrow> number" where
  "ntimes (Num a) (Num b) = rnd (a * b)"
| "ntimes NaN _ = NaN"
| "ntimes _ NaN = NaN"
| "ntimes (Num a) y = (if a = 0 then NaN else infinity (negative (Num a) \<noteq> negative y))"
| "ntimes x (Num b) = (if b = 0 then NaN else infinity (negative x \<noteq> negative (Num b)))"
| "ntimes x y = infinity (negative x \<noteq> negative y)"

fun ndiv :: "number \<Rightarrow> number \<Rightarrow> number" where
  "ndiv (Num a) (Num b) =
     (if b = 0 then (if a = 0 then NaN else infinity (a < 0)) else rnd (a / b))"
| "ndiv NaN _ = NaN"
| "ndiv _ NaN = NaN"
| "ndiv (Num a) _ = Num 0"
| "ndiv x (Num b) = infinity (negative x \<noteq> negative (Num b))"
| "ndiv _ _ = NaN"

fun nlt :: "number \<Rightarrow> number \<Rightarrow> bool" where
  "nlt (Num a) (Num b) = (a < b)"
| "nlt NaN _ = False"
| "nlt _ NaN = False"
| "nlt _ NegInf = False"
| "nlt PosInf _ = False"
| "nlt _ _ = True"

fun nge :: "number \<Rightarrow> number \<Rightarrow> bool" where
  "nge (Num a) (Num b) = (a \<ge> b)"
| "nge NaN _ = False"
| "nge _ NaN = False"
| "nge PosInf _ = True"
| "nge _ NegInf = True"
| "nge _ _ = False"

definition ngt :: "number \<Rightarrow> number \<Rightarrow> bool" where
  "ngt a b = nlt b a"

fun Math_max :: "number \<Rightarrow> number \<Rightarrow> number" where
  "Math_max (Num a) (Num b) = Num (max a b)"
| "Math_max NaN _ = NaN"
| "Math_max _ NaN = NaN"
| "Math_max PosInf _ = PosInf"
| "Math_max _ PosInf = PosInf"
| "Math_max NegInf y = y"
| "Math_max x NegInf = x"

fun Math_floor :: "number \<Rightarrow> number" where
  "Math_floor (Num a) = Num (of_int \<lfloor>a\<rfloor>)"
| "Math_floor x = x"

fun Math_abs :: "number \<Rightarrow> number" where
  "Math_abs (Num a) = Num \<bar>a\<bar>"
| "Math_abs NaN = NaN"
| "Math_abs _ = PosInf"

text \<open>\<open>xs[i]\<close> as an expression: \<open>undefined\<close> (here \<open>NaN\<close>) outside the bounds.\<close>

definition aget :: "number list \<Rightarrow> int \<Rightarrow> number" where
  "aget xs i = (if 0 \<le> i \<and> i < int (length xs) then xs ! nat i else NaN)"

text \<open>
  \<open>xs[i] = v\<close> on a copy: inside the bounds the element is replaced; at or beyond the
  length the array grows to \<open>i + 1\<close> elements, the new ones in between being holes (they
  read as \<open>undefined\<close>, here \<open>NaN\<close>); a negative \<open>i\<close> sets a property that is no element
  and leaves the elements as they are.
\<close>

definition aset :: "number list \<Rightarrow> int \<Rightarrow> number \<Rightarrow> number list" where
  "aset xs i v =
     (if i < 0 then xs
      else if i < int (length xs) then xs[nat i := v]
      else xs @ replicate (nat i - length xs) NaN @ [v])"

subsection \<open>parseInt, replace and toFixed\<close>

definition isWhiteSpace :: "char \<Rightarrow> bool" where
  "isWhiteSpace c = (c \<in> set [CHR 0x09, CHR 0x0A, CHR 0x0B, CHR 0x0C, CHR 0x0D, CHR 0x20])"

definition isDigit :: "char \<Rightarrow> bool" where
  "isDigit c = (48 \<le> (of_char c :: nat) \<and> (of_char c :: nat) \<le> 57)"

definition digitValue :: "char \<Rightarrow> int" where
  "digitValue c = int (of_char c) - 48"

text \<open>
  \<open>parseInt(s, 10)\<close>: leading white space is skipped, one sign is read, then the longest
  run of decimal digits; with no digit the result is \<open>NaN\<close>, here \<open>None\<close>. The rest of
  the string is ignored, so \<^verbatim>\<open>12.5px\<close> reads as 12.
\<close>

definition parseInt :: "string \<Rightarrow> int option" where
  "parseInt s =
     (let t = dropWhile isWhiteSpace s;
          neg = (t \<noteq> [] \<and> hd t = CHR ''-'');
          u = (if t \<noteq> [] \<and> (hd t = CHR ''-'' \<or> hd t = CHR ''+'') then tl t else t);
          ds = takeWhile isDigit u;
          n = foldl (\<lambda>a c. 10 * a + digitValue c) 0 ds
      in if ds = [] then None else Some (if neg then - n else n))"

text \<open>\<open>parseInt(s, 10) || d\<close>: the default replaces \<open>NaN\<close> and zero, both falsy.\<close>

definition parseInt_or :: "string \<Rightarrow> int \<Rightarrow> int" where
  "parseInt_or s d = (case parseInt s of None \<Rightarrow> d | Some n \<Rightarrow> if n = 0 then d else n)"

text \<open>\<open>s.replace(pat, rep)\<close> with a string pattern: the first occurrence only.\<close>

fun replace :: "string \<Rightarrow> string \<Rightarrow> string \<Rightarrow> string" where
  "replace pat rep [] = (if pat = [] then rep else [])"
| "replace pat rep (c # cs) =
     (if take (length pat) (c # cs) = pat then rep @ drop (length pat) (c # cs)
      else c # replace pat rep cs)"

text \<open>
  \<open>Number(x.toFixed(2))\<close>: \<open>toFixed\<close> takes the integer \<open>n\<close> for which \<open>n / 100\<close> is
  nearest to the exact value of the double, the larger one at a tie (the sign being set
  aside first), and prints it with two decimals; \<open>Number\<close> reads that text as the
  nearest double. From \<open>10 ^ 21\<close> on \<open>toFixed\<close> prints the number itself.
\<close>

fun toFixed2 :: "number \<Rightarrow> number" where
  "toFixed2 (Num a) =
     (if 10 ^ 21 \<le> \<bar>a\<bar> then Num a
      else rnd (sgn a * of_int \<lfloor>\<bar>a\<bar> * 100 + 1 / 2\<rfloor> / 100))"
| "toFixed2 x = x"

text \<open>
  Modelled from the spec: the module \<^verbatim>\<open>./helpers\<close> that exports \<open>numberToFixed\<close> is not
  among the sources. The functions below take the helper as a parameter \<open>nf\<close>; this
  definition, rounding to two decimals as the helper's name says, is the instance used
  where a concrete helper is needed.
\<close>

definition numberToFixed :: "number \<Rightarrow> number" where
  "numberToFixed x = toFixed2 x"

section \<open>The editor, the table node and its DOM\<close>

datatype selection = Collapsed | Expanded

text \<open>
  The table element of the document. Every property is optional in the source (the code
  reads them with defaults), and a \<open>Partial<TableElement>\<close> passed to the transform API
  has the same shape.
\<close>

record TableElement =
  el_width :: "string option"
  el_columnWidths :: "number list option"
  el_isHoverCellBorder :: "bool option"
  el_resizingIndex :: "int option"
  el_isResizing :: "bool option"

definition no_props :: TableElement where
  "no_props = \<lparr>el_width = None, el_columnWidths = None, el_isHoverCellBorder = None,
     el_resizingIndex = None, el_isResizing = None\<rparr>"

record computed_style =
  style_width :: string
  style_paddingLeft :: string
  style_paddingRight :: string

text \<open>
  What the code reads of the DOM of the selected table: the \<^verbatim>\<open>.table-container\<close> element
  (its \<open>clientWidth\<close>, its computed style and the computed styles of the \<open>table\<close> elements
  under it, in document order) and the left edge of the bounding rectangle of the
  \<^verbatim>\<open>.table\<close> element; each is absent when \<open>querySelector\<close> finds nothing.
\<close>

record container_dom =
  clientWidth :: int
  container_style :: computed_style
  truthTableDoms :: "computed_style list"

record table_dom =
  table_container :: "container_dom option"
  table_rect_left :: "rat option"

text \<open>
  The editor: its selection, the table enclosing the selection, whether the editor is
  disabled, the \<open>minWidth\<close> of the \<open>insertTable\<close> menu configuration as the text that
  \<open>minWidth.toString()\<close> yields (absent when not configured), and the DOM node that
  \<open>DomEditor.toDOMNode\<close> resolves for the table.
\<close>

record editor =
  selection :: "selection option"
  tableAtSelection :: "TableElement option"
  editor_disabled :: bool
  insertTable_minWidth :: "string option"
  toDOMNode :: table_dom

definition getSelectedNodeByType :: "editor \<Rightarrow> TableElement option" where
  "getSelectedNodeByType e = (case selection e of None \<Rightarrow> None | Some _ \<Rightarrow> tableAtSelection e)"

definition merge_props :: "TableElement \<Rightarrow> TableElement \<Rightarrow> TableElement" where
  "merge_props t p =
     \<lparr>el_width = (case el_width p of None \<Rightarrow> el_width t | Some v \<Rightarrow> Some v),
      el_columnWidths = (case el_columnWidths p of None \<Rightarrow> el_columnWidths t | Some v \<Rightarrow> Some v),
      el_isHoverCellBorder = (case el_isHoverCellBorder p of None \<Rightarrow> el_isHoverCellBorder t | Some v \<Rightarrow> Some v),
      el_resizingIndex = (case el_resizingIndex p of None \<Rightarrow> el_resizingIndex t | Some v \<Rightarrow> Some v),
      el_isResizing = (case el_isResizing p of None \<Rightarrow> el_isResizing t | Some v \<Rightarrow> Some v)\<rparr>"

text \<open>
  \<open>Transforms.setNodes(editor, props, { mode: 'highest' })\<close> of the host editor: without a
  selection nothing happens; otherwise the properties are written into the highest block
  under the selection, which the model tracks when it is the table.
\<close>

definition setNodes :: "editor \<Rightarrow> TableElement \<Rightarrow> editor" where
  "setNodes e props =
     (case getSelectedNodeByType e of
        None \<Rightarrow> e
      | Some t \<Rightarrow> e\<lparr>tableAtSelection := Some (merge_props t props)\<rparr>)"

definition isFullWidthActive :: "editor \<Rightarrow> bool" where
  "isFullWidthActive e =
     (case getSelectedNodeByType e of
        None \<Rightarrow> False
      | Some tableNode \<Rightarrow> el_width tableNode = Some ''100%'')"

text \<open>
  \<open>const { minWidth = 60 } = editor.getMenuConfig('insertTable')\<close> followed by
  \<open>parseInt(minWidth.toString(), 10) || 60\<close>.
\<close>

definition minColumnWidth :: "editor \<Rightarrow> int" where
  "minColumnWidth e =
     (let minWidth = (case insertTable_minWidth e of None \<Rightarrow> ''60'' | Some s \<Rightarrow> s)
      in parseInt_or minWidth 60)"

section \<open>Column widths while dragging\<close>

fun cumulative_from :: "number \<Rightarrow> number list \<Rightarrow> number list" where
  "cumulative_from totalWidth [] = []"
| "cumulative_from totalWidth (w # ws) = nplus totalWidth w # cumulative_from (nplus totalWidth w) ws"

definition getCumulativeWidths :: "number list \<Rightarrow> number list" where
  "getCumulativeWidths columnWidths = cumulative_from (Num 0) columnWidths"

definition getColumnWidthRatios :: "number list \<Rightarrow> number list" where
  "getColumnWidthRatios columnWidths =
     (let totalWidth = foldl nplus (Num 0) columnWidths
      in map (\<lambda>w. ndiv w totalWidth) columnWidths)"

definition calculateAdjacentWidths :: "number list \<Rightarrow> int \<Rightarrow> number \<Rightarrow> editor \<Rightarrow> number list" where
  "calculateAdjacentWidths columnWidths resizingIndex widthChange e =
     (let newWidths = columnWidths;
          minW = Num (of_int (minColumnWidth e));
          currentWidth = aget newWidths resizingIndex;
          newWidth = Math_max minW (nplus currentWidth widthChange)
      in aset newWidths resizingIndex (ndiv (Math_floor (ntimes newWidth (Num 100))) (Num 100)))"

definition calculateAdjacentWidthsByBorderPosition ::
  "(number \<Rightarrow> number) \<Rightarrow> number list \<Rightarrow> int \<Rightarrow> number \<Rightarrow> number list \<Rightarrow> editor \<Rightarrow> number list" where
  "calculateAdjacentWidthsByBorderPosition nf columnWidths resizingIndex mousePositionInTable
       cumulativeWidths e =
     (let newWidths = columnWidths in
      if resizingIndex < 0 \<or> resizingIndex \<ge> int (length columnWidths) then newWidths
      else
        let minW = Num (of_int (minColumnWidth e));
            targetBorderPosition = mousePositionInTable;
            leftBoundary = (if resizingIndex = 0 then Num 0 else aget cumulativeWidths (resizingIndex - 1));
            newColumnWidth = nminus targetBorderPosition leftBoundary;
            adjustedWidth = Math_max minW newColumnWidth
        in
        if \<not> isFullWidthActive e then
          aset newWidths resizingIndex (nf (ndiv (Math_floor (ntimes adjustedWidth (Num 100))) (Num 100)))
        else
          let widthChange = nminus adjustedWidth (aget columnWidths resizingIndex);
              newWidths1 = aset newWidths resizingIndex
                 (nf (ndiv (Math_floor (ntimes adjustedWidth (Num 100))) (Num 100)))
          in
          if nlt (Math_abs widthChange) (Num (1 / 10)) then newWidths1
          else if ngt widthChange (Num 0) then
            (if resizingIndex + 1 < int (length columnWidths) then
               let rightColumnNewWidth = Math_max minW (nminus (aget columnWidths (resizingIndex + 1)) widthChange)
               in aset newWidths1 (resizingIndex + 1)
                    (nf (ndiv (Math_floor (ntimes rightColumnNewWidth (Num 100))) (Num 100)))
             else if resizingIndex > 0 then
               let leftColumnNewWidth = Math_max minW (nminus (aget columnWidths (resizingIndex - 1)) widthChange)
               in aset newWidths1 (resizingIndex - 1)
                    (nf (ndiv (Math_floor (ntimes leftColumnNewWidth (Num 100))) (Num 100)))
             else newWidths1)
          else
            (if resizingIndex + 1 < int (length columnWidths) then
               let rightColumnNewWidth = nminus (aget columnWidths (resizingIndex + 1)) widthChange
               in aset newWidths1 (resizingIndex + 1)
                    (nf (ndiv (Math_floor (ntimes rightColumnNewWidth (Num 100))) (Num 100)))
             else if resizingIndex > 0 then
               let leftColumnNewWidth = nminus (aget columnWidths (resizingIndex - 1)) widthChange
               in aset newWidths1 (resizingIndex - 1)
                    (nf (ndiv (Math_floor (ntimes leftColumnNewWidth (Num 100))) (Num 100)))
             else newWidths1))"


section \<open>The full-width toggle\<close>

definition isActive :: "editor \<Rightarrow> bool" where
  "isActive e = isFullWidthActive e"

definition isDisabled :: "editor \<Rightarrow> bool" where
  "isDisabled e =
     (case selection e of
        None \<Rightarrow> True
      | Some sel \<Rightarrow> if sel \<noteq> Collapsed then True else getSelectedNodeByType e = None)"

definition exec :: "editor \<Rightarrow> editor" where
  "exec e =
     (if isDisabled e then e
      else if isActive e then setNodes e (no_props\<lparr>el_width := Some ''auto''\<rparr>)
      else
        case getSelectedNodeByType e of
          None \<Rightarrow> e
        | Some tableNode \<Rightarrow>
            (let columnWidths = (case el_columnWidths tableNode of None \<Rightarrow> [] | Some ws \<Rightarrow> ws);
                 tableDom = toDOMNode e
             in
             case table_container tableDom of
               None \<Rightarrow> e
             | Some containerElement \<Rightarrow>
                 (if length columnWidths = 0 then e
                  else
                    case truthTableDoms containerElement of
                      [] \<Rightarrow> e
                    | truthTableDom # _ \<Rightarrow>
                        (let parentStyle = container_style containerElement;
                             paddingLeft = parseInt_or (style_paddingLeft parentStyle) 0;
                             paddingRight = parseInt_or (style_paddingRight parentStyle) 0;
                             containerWidth = clientWidth containerElement - paddingLeft - paddingRight;
                             currentTableStyle = truthTableDom;
                             ctPaddingLeft = parseInt_or (style_paddingLeft currentTableStyle) 0;
                             ctPaddingRight = parseInt_or (style_paddingRight currentTableStyle) 0;
                             tryWidth = parseInt (replace ''px'' [] (style_width currentTableStyle));
                             ctWidth = (case tryWidth of None \<Rightarrow> containerWidth | Some w \<Rightarrow> w);
                             tableCurrentWidth =
                               max (int (length columnWidths) * 60)
                                   (ctWidth - ctPaddingLeft - ctPaddingRight);
                             newColumnWidths =
                               map (\<lambda>width.
                                      let percentage =
                                            toFixed2 (ndiv width (Num (of_int tableCurrentWidth)))
                                      in ntimes percentage (Num (of_int containerWidth)))
                                   columnWidths
                         in setNodes e (no_props\<lparr>el_width := Some ''100%'',
                                                 el_columnWidths := Some newColumnWidths\<rparr>)))))"

section \<open>The drag gesture\<close>

text \<open>
  The module's mutable variables, the cursor style of the document body, whether the
  \<open>mousemove\<close> and \<open>mouseup\<close> listeners are bound to the window, and the editors of the
  page, which the variables refer to by identity.
\<close>

record page =
  isSelectionOperation :: bool
  isMouseDownForResize :: bool
  clientXWhenMouseDown :: rat
  editorWhenMouseDown :: "nat option"
  body_cursor :: string
  mousemove_bound :: bool
  mouseup_bound :: bool
  editors :: "nat \<Rightarrow> editor"

record mouse_event =
  clientX :: rat
  target_in_table_cell :: bool
  target_is_DIV :: bool
  target_in_column_resizer :: bool

datatype error = TypeError

definition bind_listeners :: "page \<Rightarrow> page" where
  "bind_listeners s = s\<lparr>mousemove_bound := True, mouseup_bound := True\<rparr>"

definition onMouseDown :: "page \<Rightarrow> mouse_event \<Rightarrow> page" where
  "onMouseDown s event =
     (if target_in_table_cell event then bind_listeners (s\<lparr>isSelectionOperation := True\<rparr>)
      else if target_is_DIV event \<and> target_in_column_resizer event then
        (if editorWhenMouseDown s = None then s
         else bind_listeners
               (s\<lparr>isMouseDownForResize := True,
                  clientXWhenMouseDown := clientX event,
                  body_cursor := ''col-resize''\<rparr>))
      else bind_listeners s)"

text \<open>
  The body of the throttled \<open>onMouseMove\<close>. The destructuring
  \<open>const [[elemNode]] = Editor.nodes(...)\<close> raises a \<open>TypeError\<close> when no table matches.
  The first table that \<open>Editor.nodes\<close> yields and the table that
  \<open>DomEditor.getSelectedNodeByType\<close> returns are the one table enclosing the selection.
\<close>

definition onMouseMove :: "(number \<Rightarrow> number) \<Rightarrow> page \<Rightarrow> mouse_event \<Rightarrow> error + page" where
  "onMouseMove nf s event =
     (if \<not> isMouseDownForResize s then Inr s
      else
        case editorWhenMouseDown s of
          None \<Rightarrow> Inr s
        | Some ed \<Rightarrow>
            (let e = editors s ed;
                 widthChange = nminus (Num (clientX event)) (Num (clientXWhenMouseDown s))
             in
             case getSelectedNodeByType e of
               None \<Rightarrow> Inl TypeError
             | Some elemNode \<Rightarrow>
                 (let columnWidths = (case el_columnWidths elemNode of None \<Rightarrow> [] | Some ws \<Rightarrow> ws);
                      resizingIndex = (case el_resizingIndex elemNode of None \<Rightarrow> - 1 | Some i \<Rightarrow> i);
                      adjustColumnWidths =
                        (case table_rect_left (toDOMNode e) of
                           Some left \<Rightarrow>
                             (let mousePositionInTable = nminus (Num (clientX event)) (Num left);
                                  cumulativeWidths = getCumulativeWidths columnWidths
                              in calculateAdjacentWidthsByBorderPosition nf columnWidths resizingIndex
                                   mousePositionInTable cumulativeWidths e)
                         | None \<Rightarrow>
                             calculateAdjacentWidths columnWidths resizingIndex widthChange e)
                  in Inr (s\<lparr>editors := fun_upd (editors s) ed
                            (setNodes e (no_props\<lparr>el_columnWidths := Some adjustColumnWidths\<rparr>))\<rparr>))))"

definition onMouseUp :: "page \<Rightarrow> page" where
  "onMouseUp s =
     s\<lparr>isSelectionOperation := False,
       isMouseDownForResize := False,
       editorWhenMouseDown := None,
       body_cursor := [],
       mousemove_bound := False,
       mouseup_bound := False\<rparr>"

definition handleCellBorderMouseDown :: "page \<Rightarrow> nat \<Rightarrow> page" where
  "handleCellBorderMouseDown s ed =
     (if isMouseDownForResize s then s else s\<lparr>editorWhenMouseDown := Some ed\<rparr>)"

subsection \<open>Hovering over a cell border\<close>

text \<open>
  The event target when it is an HTML element: its bounding rectangle and, when the
  target lies in a \<^verbatim>\<open>.table\<close> element, the left edge of that element's rectangle.
\<close>

record target_dom =
  rect_x :: rat
  rect_width :: rat
  closest_table_x :: "rat option"

record hover_event =
  hover_clientX :: rat
  hover_target :: "target_dom option"

fun find_border :: "number \<Rightarrow> number list \<Rightarrow> int \<Rightarrow> int option" where
  "find_border x [] i = None"
| "find_border x (c # cs) i =
     (if nge x (nminus c (Num 5)) \<and> nlt x (nplus c (Num 5)) then Some i
      else find_border x cs (i + 1))"

definition handleCellBorderVisible ::
  "page \<Rightarrow> nat \<Rightarrow> TableElement \<Rightarrow> hover_event \<Rightarrow> number \<Rightarrow> page" where
  "handleCellBorderVisible s ed elemNode ev scrollWidth =
     (let e = editors s ed in
      if editor_disabled e then s
      else if isSelectionOperation s \<or> isMouseDownForResize s then s
      else
        let tableWidth = (case el_width elemNode of None \<Rightarrow> ''auto'' | Some w \<Rightarrow> w);
            columnWidths = (case el_columnWidths elemNode of None \<Rightarrow> [] | Some ws \<Rightarrow> ws);
            hovering = (el_isHoverCellBorder elemNode = Some True);
            resizingIndex = el_resizingIndex elemNode;
            x = Num (hover_clientX ev);
            reset = s\<lparr>editors := fun_upd (editors s) ed
                      (setNodes e (no_props\<lparr>el_isHoverCellBorder := Some False,
                                                  el_resizingIndex := Some (- 1)\<rparr>))\<rparr>;
            leave = (if hovering then reset else s)
        in
        case hover_target ev of
          None \<Rightarrow> leave
        | Some target \<Rightarrow>
            (if ngt x (nplus (Num (rect_x target)) (Num 5)) \<and>
                nlt x (nminus (nplus (Num (rect_x target)) (Num (rect_width target))) (Num 5)) then
               (if hovering then reset else s)
             else
               case closest_table_x target of
                 None \<Rightarrow> leave
               | Some parent_x \<Rightarrow>
                   (let widths = (if tableWidth = ''100%''
                                  then map (\<lambda>v. ntimes v scrollWidth) (getColumnWidthRatios columnWidths)
                                  else columnWidths);
                        cumulativeWidths = getCumulativeWidths widths
                    in
                    case find_border (nminus x (Num parent_x)) cumulativeWidths 0 of
                      None \<Rightarrow> leave
                    | Some i \<Rightarrow>
                        (if resizingIndex = Some i then s
                         else s\<lparr>editors := fun_upd (editors s) ed
                                (setNodes e (no_props\<lparr>el_isHoverCellBorder := Some True,
                                                            el_resizingIndex := Some i\<rparr>))\<rparr>))))"


section \<open>Example states\<close>

definition example_table_style :: computed_style where
  "example_table_style =
     \<lparr>style_width = ''300px'', style_paddingLeft = ''0px'', style_paddingRight = ''0px''\<rparr>"

definition example_container :: container_dom where
  "example_container =
     \<lparr>clientWidth = 600,
      container_style = \<lparr>style_width = ''600px'', style_paddingLeft = ''0px'',
                           style_paddingRight = ''0px''\<rparr>,
      truthTableDoms = [example_table_style]\<rparr>"

definition example_dom :: table_dom where
  "example_dom = \<lparr>table_container = Some example_container, table_rect_left = Some 0\<rparr>"

definition intrinsic_editor :: editor where
  "intrinsic_editor =
     \<lparr>selection = Some Collapsed,
      tableAtSelection = Some
        \<lparr>el_width = Some ''auto'', el_columnWidths = Some [Num 100, Num 100, Num 100],
         el_isHoverCellBorder = Some True, el_resizingIndex = Some 0, el_isResizing = None\<rparr>,
      editor_disabled = False,
      insertTable_minWidth = None,
      toDOMNode = example_dom\<rparr>"

definition full_width_editor :: editor where
  "full_width_editor =
     \<lparr>selection = Some Collapsed,
      tableAtSelection = Some
        \<lparr>el_width = Some ''100%'', el_columnWidths = Some [Num 200, Num 200],
         el_isHoverCellBorder = Some True, el_resizingIndex = Some 0, el_isResizing = None\<rparr>,
      editor_disabled = False,
      insertTable_minWidth = None,
      toDOMNode = example_dom\<rparr>"

text \<open>A container and a table with padding, and an editor whose table lies in them.\<close>

definition padded_table_style :: computed_style where
  "padded_table_style =
     \<lparr>style_width = ''230px'', style_paddingLeft = ''10px'', style_paddingRight = ''20px''\<rparr>"

definition padded_container :: container_dom where
  "padded_container =
     \<lparr>clientWidth = 612,
      container_style = \<lparr>style_width = ''612px'', style_paddingLeft = ''5px'',
                           style_paddingRight = ''7px''\<rparr>,
      truthTableDoms = [padded_table_style]\<rparr>"

definition padded_editor :: editor where
  "padded_editor =
     \<lparr>selection = Some Collapsed,
      tableAtSelection = Some
        \<lparr>el_width = Some ''auto'', el_columnWidths = Some [Num 3, Num 197],
         el_isHoverCellBorder = None, el_resizingIndex = None, el_isResizing = None\<rparr>,
      editor_disabled = False,
      insertTable_minWidth = None,
      toDOMNode = \<lparr>table_container = Some padded_container, table_rect_left = Some 0\<rparr>\<rparr>"

text \<open>An editor configured with the minimum column width 80.\<close>

definition wide_min_editor :: editor where
  "wide_min_editor = intrinsic_editor\<lparr>insertTable_minWidth := Some ''80''\<rparr>"

text \<open>An editor configured with the minimum column width 60.9.\<close>

definition fractional_min_editor :: editor where
  "fractional_min_editor = intrinsic_editor\<lparr>insertTable_minWidth := Some ''60.9''\<rparr>"

text \<open>A full-width table without column widths whose DOM has no container.\<close>

definition bare_full_width_editor :: editor where
  "bare_full_width_editor =
     \<lparr>selection = Some Collapsed,
      tableAtSelection = Some
        \<lparr>el_width = Some ''100%'', el_columnWidths = None,
         el_isHoverCellBorder = None, el_resizingIndex = None, el_isResizing = None\<rparr>,
      editor_disabled = False,
      insertTable_minWidth = None,
      toDOMNode = \<lparr>table_container = None, table_rect_left = None\<rparr>\<rparr>"

text \<open>An editor without a selection, and a disabled editor.\<close>

definition unselected_editor :: editor where
  "unselected_editor = intrinsic_editor\<lparr>selection := None\<rparr>"

definition disabled_editor :: editor where
  "disabled_editor = intrinsic_editor\<lparr>editor_disabled := True\<rparr>"


definition no_container_editor :: editor where
  "no_container_editor =
     intrinsic_editor\<lparr>toDOMNode := \<lparr>table_container = None, table_rect_left = None\<rparr>\<rparr>"

section \<open>Auxiliary definitions for the statements\<close>

text \<open>The sum of an array of numbers, as \<open>reduce((a, b) => a + b, 0)\<close> computes it.\<close>

definition sum_widths :: "number list \<Rightarrow> number" where
  "sum_widths ws = foldl nplus (Num 0) ws"

text \<open>
  The number that a plain decimal text denotes (digits, then optionally a point and
  digits): what a configured \<open>minWidth\<close> of that text stands for as a number.
\<close>

definition decimalValue :: "string \<Rightarrow> rat" where
  "decimalValue s =
     (let ip = takeWhile isDigit s;
          rest = dropWhile isDigit s;
          fp = (if rest \<noteq> [] \<and> hd rest = CHR ''.'' then takeWhile isDigit (tl rest) else [])
      in of_int (foldl (\<lambda>a c. 10 * a + digitValue c) 0 ip)
         + of_int (foldl (\<lambda>a c. 10 * a + digitValue c) 0 fp) / 10 ^ length fp)"

text \<open>
  The handler invocations of a page, in the order they run. \<open>MouseMove\<close> is one run of
  the body of the throttled handler; since throttling may defer a run until after later
  events, a run may stand anywhere in a trace, whether or not the listener is bound.
  \<open>Host\<close> stands for anything else that changes the editors of the page.
\<close>

datatype event =
    MouseDown mouse_event
  | MouseMove mouse_event
  | MouseUp
  | CellBorderMouseDown nat
  | Host "nat \<Rightarrow> editor"

text \<open>An exception in a handler ends that handler; the page stays as it was.\<close>

fun step :: "(number \<Rightarrow> number) \<Rightarrow> page \<Rightarrow> event \<Rightarrow> page" where
  "step nf s (MouseDown ev) = onMouseDown s ev"
| "step nf s (MouseMove ev) = (case onMouseMove nf s ev of Inl _ \<Rightarrow> s | Inr s' \<Rightarrow> s')"
| "step nf s MouseUp = onMouseUp s"
| "step nf s (CellBorderMouseDown ed) = handleCellBorderMouseDown s ed"
| "step nf s (Host eds) = s\<lparr>editors := eds\<rparr>"

definition run :: "(number \<Rightarrow> number) \<Rightarrow> page \<Rightarrow> event list \<Rightarrow> page" where
  "run nf s es = foldl (step nf) s es"

text \<open>The page when the module is loaded.\<close>

definition initial_page :: "(nat \<Rightarrow> editor) \<Rightarrow> page" where
  "initial_page eds =
     \<lparr>isSelectionOperation = False,
      isMouseDownForResize = False,
      clientXWhenMouseDown = 0,
      editorWhenMouseDown = None,
      body_cursor = [],
      mousemove_bound = False,
      mouseup_bound = False,
      editors = eds\<rparr>"

text \<open>A mousedown whose target is a \<open>DIV\<close> inside a column resizer and outside any cell.\<close>

definition on_resizer :: "mouse_event \<Rightarrow> bool" where
  "on_resizer ev =
     (\<not> target_in_table_cell ev \<and> target_is_DIV ev \<and> target_in_column_resizer ev)"

text \<open>
  A trace lies inside a drag when it holds a mousedown on a column resizer, made while an
  editor was recorded, with no mouseup after it.
\<close>

definition in_drag :: "(number \<Rightarrow> number) \<Rightarrow> (nat \<Rightarrow> editor) \<Rightarrow> event list \<Rightarrow> bool" where
  "in_drag nf eds es \<longleftrightarrow>
     (\<exists>pre d post. es = pre @ MouseDown d # post \<and> on_resizer d \<and>
        editorWhenMouseDown (run nf (initial_page eds) pre) \<noteq> None \<and> MouseUp \<notin> set post)"

text \<open>The start of a drag on the first border of the full-width example, and a move.\<close>

definition resizer_down :: mouse_event where
  "resizer_down = \<lparr>clientX = 200, target_in_table_cell = False, target_is_DIV = True,
                    target_in_column_resizer = True\<rparr>"

definition drag_move :: mouse_event where
  "drag_move = \<lparr>clientX = 250, target_in_table_cell = False, target_is_DIV = True,
                 target_in_column_resizer = True\<rparr>"

definition drag_start :: "event list" where
  "drag_start = [CellBorderMouseDown 0, MouseDown resizer_down]"


section \<open>Facts about rounding to a double\<close>

lemma rhe_of_int: "rhe (of_int n) = n"
  by (simp add: rhe_def)

lemma rhe_ge: "of_int k \<le> x \<Longrightarrow> k \<le> rhe x"
proof -
  assume "of_int k \<le> x"
  then have "k \<le> \<lfloor>x\<rfloor>" by (simp add: le_floor_iff)
  moreover have "\<lfloor>x\<rfloor> \<le> rhe x" by (simp add: rhe_def Let_def)
  ultimately show ?thesis by simp
qed

lemma rhe_near:
  assumes "\<bar>x - of_int n\<bar> < 1 / 2"
  shows "rhe x = n"
proof (cases "of_int n \<le> x")
  case True
  with assms have d: "x - of_int n < 1 / 2" by simp
  with True have f: "\<lfloor>x\<rfloor> = n" by (intro floor_unique) simp_all
  from d f show ?thesis by (simp add: rhe_def Let_def)
next
  case False
  with assms have d: "of_int n - x < 1 / 2" and lt: "x < of_int n" by simp_all
  then have f: "\<lfloor>x\<rfloor> = n - 1" by (intro floor_unique) simp_all
  from d have "1 / 2 < x - of_int (n - 1)" by simp
  with f show ?thesis by (simp add: rhe_def Let_def)
qed

lemma expo_lower:
  assumes "0 < x"
  shows "2 powi (expo x) \<le> x"
proof (cases "1 \<le> x")
  case True
  then have pos: "0 < \<lfloor>x\<rfloor>" by (simp add: less_floor_iff)
  from bitlen_bounds [OF pos] have b: "2 ^ nat (bitlen \<lfloor>x\<rfloor> - 1) \<le> \<lfloor>x\<rfloor>" by simp
  have "1 \<le> bitlen \<lfloor>x\<rfloor>" using pos bitlen_eq_zero_iff [of "\<lfloor>x\<rfloor>"] bitlen_nonneg [of "\<lfloor>x\<rfloor>"] by linarith
  then have "(2::rat) powi (expo x) = 2 ^ nat (bitlen \<lfloor>x\<rfloor> - 1)"
    using True by (simp add: expo_def power_int_nonneg_exp)
  also have "\<dots> = of_int (2 ^ nat (bitlen \<lfloor>x\<rfloor> - 1))" by simp
  also have "\<dots> \<le> of_int \<lfloor>x\<rfloor>" using b by (simp only: of_int_le_iff)
  also have "\<dots> \<le> x" by simp
  finally show ?thesis .
next
  case False
  define M where "M = \<lceil>1 / x\<rceil> - 1"
  from False assms have "1 < 1 / x" by simp
  then have pos: "0 < M" by (simp add: M_def less_ceiling_iff)
  from bitlen_bounds [OF pos] have "M < 2 ^ nat (bitlen M)" by simp
  then have "\<lceil>1 / x\<rceil> \<le> 2 ^ nat (bitlen M)" by (simp add: M_def)
  then have "1 / x \<le> of_int (2 ^ nat (bitlen M))" by (simp only: ceiling_le_iff)
  then have "1 / x \<le> 2 ^ nat (bitlen M)" by simp
  with assms have "1 / 2 ^ nat (bitlen M) \<le> x"
    by (simp add: field_simps)
  moreover have "(2::rat) powi (expo x) = 1 / 2 ^ nat (bitlen M)"
    using False bitlen_nonneg [of M]
    by (simp add: expo_def M_def power_int_minus_divide power_int_nonneg_exp)
  ultimately show ?thesis by simp
qed

lemma expo_upper:
  assumes "0 < x"
  shows "x < 2 powi (expo x + 1)"
proof (cases "1 \<le> x")
  case True
  then have pos: "0 < \<lfloor>x\<rfloor>" by (simp add: less_floor_iff)
  from bitlen_bounds [OF pos] have "\<lfloor>x\<rfloor> < 2 ^ nat (bitlen \<lfloor>x\<rfloor>)" by simp
  then have "\<lfloor>x\<rfloor> + 1 \<le> 2 ^ nat (bitlen \<lfloor>x\<rfloor>)" by simp
  then have "(of_int (\<lfloor>x\<rfloor> + 1) :: rat) \<le> of_int (2 ^ nat (bitlen \<lfloor>x\<rfloor>))"
    by (simp only: of_int_le_iff)
  moreover have "x < of_int (\<lfloor>x\<rfloor> + 1)" by simp linarith
  moreover have "(2::rat) powi (expo x + 1) = of_int (2 ^ nat (bitlen \<lfloor>x\<rfloor>))"
    using True bitlen_nonneg [of "\<lfloor>x\<rfloor>"] by (simp add: expo_def power_int_nonneg_exp)
  ultimately show ?thesis by simp
next
  case False
  define M where "M = \<lceil>1 / x\<rceil> - 1"
  from False assms have "1 < 1 / x" by simp
  then have pos: "0 < M" by (simp add: M_def less_ceiling_iff)
  have one: "1 \<le> bitlen M" using pos bitlen_eq_zero_iff [of M] bitlen_nonneg [of M] by linarith
  from bitlen_bounds [OF pos] have "2 ^ nat (bitlen M - 1) \<le> M" by simp
  then have "(of_int (2 ^ nat (bitlen M - 1)) :: rat) \<le> of_int M" by (simp only: of_int_le_iff)
  then have a: "(2::rat) ^ nat (bitlen M - 1) \<le> of_int M" by simp
  have b: "of_int M < 1 / x" using ceiling_correct [of "1 / x"] by (simp add: M_def)
  from a b have "2 ^ nat (bitlen M - 1) < 1 / x" by (rule le_less_trans)
  with assms have "x < 1 / 2 ^ nat (bitlen M - 1)" by (simp add: field_simps)
  moreover have "(2::rat) powi (expo x + 1) = 1 / 2 ^ nat (bitlen M - 1)"
  proof -
    have e: "expo x + 1 = - (bitlen M - 1)" using False by (simp add: expo_def M_def)
    have "(2::rat) powi (- (bitlen M - 1)) = 1 / 2 powi (bitlen M - 1)"
      by (rule power_int_minus_divide)
    also have "(2::rat) powi (bitlen M - 1) = 2 ^ nat (bitlen M - 1)"
      using one by (intro power_int_nonneg_exp) simp
    finally show ?thesis by (simp only: e)
  qed
  ultimately show ?thesis by simp
qed

lemma pow2_less_exp: "(2::rat) powi a < 2 powi b \<Longrightarrow> a < b"
proof (rule ccontr)
  assume l: "(2::rat) powi a < 2 powi b" and "\<not> a < b"
  then have "b \<le> a" by simp
  then have "(2::rat) powi b \<le> 2 powi a" by (intro power_int_increasing) simp_all
  with l show False by simp
qed

lemma expo_unique:
  assumes "0 < x" and "2 powi e \<le> x" and "x < 2 powi (e + 1)"
  shows "expo x = e"
proof -
  have "(2::rat) powi (expo x) < 2 powi (e + 1)"
    using expo_lower [OF assms(1)] assms(3) by simp
  then have "expo x < e + 1" by (rule pow2_less_exp)
  moreover have "(2::rat) powi e < 2 powi (expo x + 1)"
    using expo_upper [OF assms(1)] assms(2) by simp
  then have "e < expo x + 1" by (rule pow2_less_exp)
  ultimately show ?thesis by simp
qed


lemma rnd_finite:
  assumes "x \<noteq> 0" and "p = max (expo \<bar>x\<bar> - 52) (- 1074)"
    and "r = of_int (rhe (x / 2 powi p)) * 2 powi p" and "\<bar>r\<bar> < 2 ^ 1024"
  shows "rnd x = Num r"
proof -
  from assms(4) have "\<not> 2 ^ 1024 \<le> r" and "\<not> r \<le> - (2 ^ 1024)" by (simp_all add: abs_less_iff)
  then show ?thesis
    using assms(1) unfolding rnd_def Let_def assms(2) [symmetric] assms(3) [symmetric] by simp
qed

text \<open>Exact values: an integer below \<open>2 ^ 53\<close> in magnitude, scaled by a power of two.\<close>

lemma rnd_dyadic:
  assumes x: "x = of_int n * 2 powi q" and n: "\<bar>n\<bar> < 2 ^ 53" and q: "- 1074 \<le> q" "q \<le> 0"
  shows "rnd x = Num x"
proof (cases "x = 0")
  case True
  then show ?thesis by (simp add: rnd_def)
next
  case False
  define p where "p = max (expo \<bar>x\<bar> - 52) (- 1074)"
  have xpos: "0 < \<bar>x\<bar>" using False by simp
  have ax: "\<bar>x\<bar> = of_int \<bar>n\<bar> * 2 powi q" by (simp add: x abs_mult)
  have "(of_int \<bar>n\<bar> :: rat) < of_int (2 ^ 53)" using n by (simp only: of_int_less_iff)
  then have "(of_int \<bar>n\<bar> :: rat) < 2 powi 53" by simp
  then have "\<bar>x\<bar> < 2 powi 53 * 2 powi q" unfolding ax by (intro mult_strict_right_mono) simp_all
  then have lt: "\<bar>x\<bar> < 2 powi (53 + q)" by (simp add: power_int_add)
  have "(2::rat) powi (expo \<bar>x\<bar>) < 2 powi (53 + q)"
    using expo_lower [OF xpos] lt by simp
  then have "expo \<bar>x\<bar> < 53 + q" by (rule pow2_less_exp)
  with q have pq: "p \<le> q" by (simp add: p_def)
  have "x / 2 powi p = of_int n * 2 powi (q - p)"
    by (simp add: x power_int_diff)
  also have "\<dots> = of_int (n * 2 ^ nat (q - p))"
    using pq by (simp add: power_int_nonneg_exp)
  finally have "rhe (x / 2 powi p) = n * 2 ^ nat (q - p)" by (simp only: rhe_of_int)
  then have "(of_int (rhe (x / 2 powi p)) :: rat) * 2 powi p = of_int n * (2 powi (q - p) * 2 powi p)"
    using pq by (simp add: power_int_nonneg_exp mult.assoc)
  also have "\<dots> = x" by (simp add: x flip: power_int_add)
  finally have r: "x = of_int (rhe (x / 2 powi p)) * 2 powi p" by simp
  have "(2::rat) powi (53 + q) \<le> 2 powi 1024" using q by (intro power_int_increasing) simp_all
  with lt have "\<bar>x\<bar> < 2 ^ 1024" by simp
  from rnd_finite [OF False p_def r this] show ?thesis .
qed

lemma rnd_int: "\<bar>k\<bar> < 2 ^ 53 \<Longrightarrow> rnd (of_int k) = Num (of_int k)"
  using rnd_dyadic [of "of_int k" k 0] by simp


text \<open>A rounding certificate: the binade of \<open>x\<close> and the significand nearest to it.\<close>

lemma rnd_cert:
  assumes lo: "2 powi e \<le> \<bar>x\<bar>" and hi: "\<bar>x\<bar> < 2 powi (e + 1)"
    and e: "- 1022 \<le> e" "e \<le> 1022"
    and near: "\<bar>x - of_int n * 2 powi (e - 52)\<bar> < 2 powi (e - 53)"
  shows "rnd x = Num (of_int n * 2 powi (e - 52))"
proof -
  have "(0::rat) < 2 powi e" by simp
  with lo have xpos: "0 < \<bar>x\<bar>" by linarith
  then have x0: "x \<noteq> 0" by simp
  have ex: "expo \<bar>x\<bar> = e" using xpos lo hi by (rule expo_unique)
  have p: "e - 52 = max (expo \<bar>x\<bar> - 52) (- 1074)" using e by (simp add: ex)
  have half: "(2::rat) powi (e - 53) = 2 powi (e - 52) / 2"
    using power_int_diff [of "2::rat" "e - 52" 1] by simp
  have "x / 2 powi (e - 52) - of_int n = (x - of_int n * 2 powi (e - 52)) / 2 powi (e - 52)"
    by (simp add: field_simps)
  then have "\<bar>x / 2 powi (e - 52) - of_int n\<bar> = \<bar>x - of_int n * 2 powi (e - 52)\<bar> / 2 powi (e - 52)"
    by (simp add: abs_divide del: of_int_mult)
  also have "\<dots> < (2 powi (e - 52) / 2) / 2 powi (e - 52)"
    using near unfolding half by (intro divide_strict_right_mono) simp_all
  also have "\<dots> = 1 / 2" by simp
  finally have "rhe (x / 2 powi (e - 52)) = n" by (rule rhe_near)
  then have r: "of_int n * 2 powi (e - 52) = of_int (rhe (x / 2 powi (e - 52))) * 2 powi (e - 52)"
    by simp
  have "\<bar>of_int n * 2 powi (e - 52)\<bar> \<le> \<bar>x\<bar> + \<bar>x - of_int n * 2 powi (e - 52)\<bar>"
    by linarith
  also have "\<dots> < 2 powi (e + 1) + 2 powi (e - 53)" using hi near by linarith
  also have "(2::rat) powi (e - 53) \<le> 2 powi (e + 1)" by (intro power_int_increasing) simp_all
  then have "(2::rat) powi (e + 1) + 2 powi (e - 53) \<le> 2 powi (e + 2)"
  proof -
    assume a: "(2::rat) powi (e - 53) \<le> 2 powi (e + 1)"
    have "(2::rat) powi (e + 1 + 1) = 2 powi (e + 1) * 2 powi 1" by (rule power_int_add) simp
    moreover have "e + 1 + 1 = e + 2" by simp
    ultimately have "(2::rat) powi (e + 2) = 2 powi (e + 1) * 2" by simp
    with a show ?thesis by linarith
  qed
  also have "(2::rat) powi (e + 2) \<le> 2 powi 1024" using e by (intro power_int_increasing) simp_all
  finally have "\<bar>(of_int n :: rat) * 2 powi (e - 52)\<bar> < 2 ^ 1024" by simp
  from rnd_finite [OF x0 p r this] show ?thesis .
qed

text \<open>Rounding does not go below an integer that a double holds exactly.\<close>

lemma rnd_ge_int:
  assumes le: "of_int k \<le> z" and k: "\<bar>k\<bar> < 2 ^ 53"
  shows "nge (rnd z) (Num (of_int k))"
proof (cases "z = 0")
  case True
  with le show ?thesis by (simp add: rnd_def)
next
  case False
  define p where "p = max (expo \<bar>z\<bar> - 52) (- 1074)"
  define r :: rat where "r = of_int (rhe (z / 2 powi p)) * 2 powi p"
  have kr: "(of_int \<bar>k\<bar> :: rat) < 2 ^ 53"
  proof -
    have "(of_int \<bar>k\<bar> :: rat) < of_int (2 ^ 53)" using k by (simp only: of_int_less_iff)
    then show ?thesis by simp
  qed
  have ge: "of_int k \<le> r"
  proof (cases "p \<le> 0")
    case True
    have "of_int k / 2 powi p = (of_int k :: rat) * 2 powi (- p)"
      by (simp add: power_int_minus field_simps)
    also have "\<dots> = of_int (k * 2 ^ nat (- p))" using True by (simp add: power_int_nonneg_exp)
    finally have "of_int (k * 2 ^ nat (- p)) = (of_int k :: rat) / 2 powi p" by simp
    also have "\<dots> \<le> z / 2 powi p" using le by (intro divide_right_mono) simp_all
    finally have "k * 2 ^ nat (- p) \<le> rhe (z / 2 powi p)" by (rule rhe_ge)
    then have "(of_int (k * 2 ^ nat (- p)) :: rat) \<le> of_int (rhe (z / 2 powi p))"
      by (simp only: of_int_le_iff)
    then have A: "(of_int (k * 2 ^ nat (- p)) :: rat) * 2 powi p \<le> r"
      unfolding r_def by (intro mult_right_mono) simp_all
    have B: "(of_int (k * 2 ^ nat (- p)) :: rat) * 2 powi p = of_int k * (2 powi (- p) * 2 powi p)"
      using True by (simp add: power_int_nonneg_exp mult.assoc)
    have C: "(2::rat) powi (- p) * 2 powi p = 1" by (simp flip: power_int_add)
    have "(of_int (k * 2 ^ nat (- p)) :: rat) * 2 powi p = of_int k"
      by (simp only: B C mult_1_right)
    with A show ?thesis by (simp only:)
  next
    case False
    then have pe: "expo \<bar>z\<bar> = p + 52" and ppos: "0 < p" by (simp_all add: p_def max_def split: if_splits)
    have zpos: "0 < \<bar>z\<bar>" using \<open>z \<noteq> 0\<close> by simp
    have big: "2 powi (p + 52) \<le> \<bar>z\<bar>" using expo_lower [OF zpos] by (simp only: pe)
    have "(2::rat) powi 53 \<le> 2 powi (p + 52)" using ppos by (intro power_int_increasing) simp_all
    with big have z53: "2 ^ 53 \<le> \<bar>z\<bar>" by simp
    have "0 < z"
    proof (rule ccontr)
      assume "\<not> 0 < z"
      then have "\<bar>z\<bar> = - z" by simp
      with le have "\<bar>z\<bar> \<le> - of_int k" by simp
      also have "\<dots> \<le> of_int \<bar>k\<bar>" by simp
      finally show False using z53 kr by simp
    qed
    with big have "2 powi (p + 52) \<le> z" by simp
    then have "2 powi (p + 52) / 2 powi p \<le> z / 2 powi p" by (intro divide_right_mono) simp_all
    moreover have "(2::rat) powi (p + 52) / 2 powi p = of_int (2 ^ 52)"
      by (simp add: power_int_add)
    ultimately have "of_int (2 ^ 52) \<le> z / 2 powi p" by simp
    then have "2 ^ 52 \<le> rhe (z / 2 powi p)" by (rule rhe_ge)
    then have "(of_int (2 ^ 52) :: rat) \<le> of_int (rhe (z / 2 powi p))" by (simp only: of_int_le_iff)
    then have "(of_int (2 ^ 52) :: rat) * 2 powi p \<le> r"
      unfolding r_def by (intro mult_right_mono) simp_all
    then have a: "(2 ^ 52 :: rat) * 2 powi p \<le> r" by simp
    have "(2::rat) powi 1 \<le> 2 powi p" using ppos by (intro power_int_increasing) simp_all
    then have "(2::rat) \<le> 2 powi p" by simp
    then have b: "(2 ^ 52 :: rat) * 2 \<le> 2 ^ 52 * 2 powi p"
      by (intro mult_left_mono) simp_all
    have c: "(of_int k :: rat) \<le> of_int \<bar>k\<bar>" by simp
    have d: "(2 ^ 53 :: rat) = 2 ^ 52 * 2" by simp
    from a b c kr d show ?thesis by linarith
  qed
  have "rnd z = (if 2 ^ 1024 \<le> r then PosInf else if r \<le> - (2 ^ 1024) then NegInf else Num r)"
    using \<open>z \<noteq> 0\<close> by (simp add: rnd_def Let_def p_def r_def)
  moreover have "\<not> r \<le> - (2 ^ 1024)"
  proof
    assume "r \<le> - (2 ^ 1024)"
    with ge have "(of_int k :: rat) \<le> - (2 ^ 1024)" by simp
    moreover have "- (of_int \<bar>k\<bar> :: rat) \<le> of_int k" by simp
    ultimately show False using kr by simp
  qed
  ultimately show ?thesis using ge by simp
qed


lemma rnd_numeral: "(numeral w :: int) < 2 ^ 53 \<Longrightarrow> rnd (numeral w) = Num (numeral w)"
  using rnd_int [of "numeral w"] by simp

lemma rnd_neg_numeral: "(numeral w :: int) < 2 ^ 53 \<Longrightarrow> rnd (- numeral w) = Num (- numeral w)"
  using rnd_int [of "- numeral w"] by simp

lemma rnd_0: "rnd 0 = Num 0"
  by (simp add: rnd_def)

lemma rnd_1: "rnd 1 = Num 1"
  using rnd_int [of 1] by simp

lemma rnd_not_NaN: "rnd x \<noteq> NaN"
  by (simp add: rnd_def Let_def)

lemma length_aset_inside: "i < int (length xs) \<Longrightarrow> length (aset xs i v) = length xs"
  by (simp add: aset_def)

lemma aget_aset_other: "i < int (length xs) \<Longrightarrow> k \<noteq> i \<Longrightarrow> aget (aset xs i v) k = aget xs k"
  by (auto simp add: aset_def aget_def)

lemma aget_aset_same: "0 \<le> i \<Longrightarrow> i < int (length xs) \<Longrightarrow> aget (aset xs i v) i = v"
  by (simp add: aset_def aget_def)

lemma border_at_index:
  assumes "0 \<le> i" and "i < int (length cws)"
  shows "aget (calculateAdjacentWidthsByBorderPosition nf cws i m cums e) i =
     nf (ndiv (Math_floor (ntimes
        (Math_max (Num (of_int (minColumnWidth e)))
           (nminus m (if i = 0 then Num 0 else aget cums (i - 1)))) (Num 100))) (Num 100))"
  using assms
  by (auto simp add: calculateAdjacentWidthsByBorderPosition_def Let_def
        aget_aset_other aget_aset_same length_aset_inside)

text \<open>Flooring to two decimals does not go below a whole-number bound.\<close>

lemma floor2_ge:
  assumes v: "nge v (Num (of_int b))" and b: "\<bar>b\<bar> < 2 ^ 46"
  shows "nge (ndiv (Math_floor (ntimes v (Num 100))) (Num 100)) (Num (of_int b))"
proof (cases v)
  case (Num a)
  with v have ab: "of_int b \<le> a" by simp
  have b100: "\<bar>b * 100\<bar> < 2 ^ 53" using b by (simp add: abs_mult)
  have "of_int (b * 100) \<le> a * 100" using ab by simp
  then have t: "nge (rnd (a * 100)) (Num (of_int (b * 100)))" using b100 by (rule rnd_ge_int)
  show ?thesis
  proof (cases "rnd (a * 100)")
    case (Num t')
    with t have "of_int (b * 100) \<le> t'" by simp
    then have "b * 100 \<le> \<lfloor>t'\<rfloor>" by (simp only: le_floor_iff)
    then have "(of_int (b * 100) :: rat) \<le> of_int \<lfloor>t'\<rfloor>" by (simp only: of_int_le_iff)
    then have "(of_int b :: rat) \<le> of_int \<lfloor>t'\<rfloor> / 100" by simp
    moreover have "\<bar>b\<bar> < 2 ^ 53" using b by simp
    ultimately have "nge (rnd (of_int \<lfloor>t'\<rfloor> / 100)) (Num (of_int b))" by (rule rnd_ge_int)
    with Num \<open>v = Num a\<close> show ?thesis by simp
  next
    case PosInf
    with \<open>v = Num a\<close> show ?thesis by (simp add: infinity_def)
  next
    case NegInf
    with t show ?thesis by simp
  next
    case NaN
    with t show ?thesis by simp
  qed
next
  case PosInf
  then show ?thesis by (simp add: infinity_def)
next
  case NegInf
  with v show ?thesis by simp
next
  case NaN
  with v show ?thesis by simp
qed

lemma Math_max_ge: "y \<noteq> NaN \<Longrightarrow> nge (Math_max (Num b) y) (Num b)"
  by (cases y) simp_all

lemma nplus_finite_not_NaN: "x \<noteq> NaN \<Longrightarrow> nplus x (Num d) \<noteq> NaN"
  by (cases x) (simp_all add: rnd_not_NaN)

lemma nminus_finite_not_NaN: "y \<noteq> NaN \<Longrightarrow> nminus (Num m) y \<noteq> NaN"
  by (cases y) (simp_all add: nminus_def rnd_not_NaN)


text \<open>The rounding helper keeps whole numbers and does not go below a whole-number bound.\<close>

lemma toFixed2_int:
  assumes "\<bar>k\<bar> < 2 ^ 53"
  shows "toFixed2 (Num (of_int k)) = Num (of_int k)"
proof -
  have small: "\<not> (10 ^ 21 :: rat) \<le> \<bar>of_int k\<bar>"
  proof -
    have "(of_int \<bar>k\<bar> :: rat) < of_int (2 ^ 53)" using assms by (simp only: of_int_less_iff)
    then show ?thesis by simp
  qed
  have "\<lfloor>\<bar>of_int k :: rat\<bar> * 100 + 1 / 2\<rfloor> = \<bar>k\<bar> * 100"
    by (rule floor_unique) simp_all
  moreover have "sgn (of_int k :: rat) * of_int (\<bar>k\<bar> * 100) / 100 = of_int k"
    by (simp add: sgn_if)
  ultimately have "toFixed2 (Num (of_int k)) = rnd (of_int k)"
    using small by simp
  then show ?thesis using rnd_int [OF assms] by simp
qed

lemma numberToFixed_numeral:
  "(numeral w :: int) < 2 ^ 53 \<Longrightarrow> numberToFixed (Num (numeral w)) = Num (numeral w)"
  using toFixed2_int [of "numeral w"] by (simp add: numberToFixed_def)

lemma numberToFixed_keeps_bound:
  assumes b: "\<bar>b\<bar> < 2 ^ 46" and v: "nge v (Num (of_int b))"
  shows "nge (numberToFixed v) (Num (of_int b))"
proof (cases v)
  case (Num a)
  with v have ab: "of_int b \<le> a" by simp
  have b53: "\<bar>b\<bar> < 2 ^ 53" using b by simp
  show ?thesis
  proof (cases "10 ^ 21 \<le> \<bar>a\<bar>")
    case True
    with Num ab show ?thesis by (simp add: numberToFixed_def)
  next
    case False
    have "of_int b \<le> sgn a * of_int \<lfloor>\<bar>a\<bar> * 100 + 1 / 2\<rfloor> / 100"
    proof (cases "0 \<le> a")
      case True
      have "of_int (b * 100) \<le> \<bar>a\<bar> * 100 + 1 / 2" using ab True by simp
      then have "b * 100 \<le> \<lfloor>\<bar>a\<bar> * 100 + 1 / 2\<rfloor>" by (simp only: le_floor_iff)
      then have "(of_int (b * 100) :: rat) \<le> of_int \<lfloor>\<bar>a\<bar> * 100 + 1 / 2\<rfloor>"
        by (simp only: of_int_le_iff)
      then have le: "(of_int b :: rat) \<le> of_int \<lfloor>\<bar>a\<bar> * 100 + 1 / 2\<rfloor> / 100" by simp
      show ?thesis
      proof (cases "a = 0")
        case True
        with ab show ?thesis by simp
      next
        case False
        with True have "sgn a = 1" by simp
        with le show ?thesis by simp
      qed
    next
      case False
      then have neg: "a < 0" by simp
      have "\<bar>a\<bar> * 100 + 1 / 2 < of_int (- b * 100) + 1" using ab neg by simp
      then have "\<lfloor>\<bar>a\<bar> * 100 + 1 / 2\<rfloor> \<le> - b * 100" by (simp only: floor_le_iff)
      then have "(of_int \<lfloor>\<bar>a\<bar> * 100 + 1 / 2\<rfloor> :: rat) \<le> of_int (- b * 100)"
        by (simp only: of_int_le_iff)
      then have "(of_int b :: rat) \<le> - (of_int \<lfloor>\<bar>a\<bar> * 100 + 1 / 2\<rfloor> / 100)" by simp
      moreover from neg have "sgn a = - 1" by simp
      ultimately show ?thesis by simp
    qed
    then have "nge (rnd (sgn a * of_int \<lfloor>\<bar>a\<bar> * 100 + 1 / 2\<rfloor> / 100)) (Num (of_int b))"
      using b53 by (rule rnd_ge_int)
    with Num False show ?thesis by (simp add: numberToFixed_def)
  qed
next
  case PosInf
  then show ?thesis by (simp add: numberToFixed_def)
next
  case NegInf
  with v show ?thesis by simp
next
  case NaN
  with v show ?thesis by simp
qed

lemma minColumnWidth_default: "insertTable_minWidth e = None \<Longrightarrow> minColumnWidth e = 60"
  by (simp add: minColumnWidth_def parseInt_or_def parseInt_def isWhiteSpace_def isDigit_def
        digitValue_def)

lemma parseInt_60_9: "parseInt ''60.9'' = Some 60"
  by (simp add: parseInt_def isWhiteSpace_def isDigit_def digitValue_def)

lemma decimalValue_60_9: "decimalValue ''60.9'' = 609 / 10"
  by (simp add: decimalValue_def isDigit_def digitValue_def)

lemma fractional_min: "minColumnWidth fractional_min_editor = 60"
  using parseInt_60_9 by (simp add: minColumnWidth_def parseInt_or_def fractional_min_editor_def)

lemma fractional_not_full: "\<not> isFullWidthActive fractional_min_editor"
  by (simp add: isFullWidthActive_def getSelectedNodeByType_def fractional_min_editor_def
        intrinsic_editor_def)

lemma cumulative_hundreds:
  "getCumulativeWidths [Num 100, Num 100, Num 100] = [Num 100, Num 200, Num 300]"
  by (simp add: getCumulativeWidths_def rnd_numeral)

lemma drag_below_min:
  "calculateAdjacentWidthsByBorderPosition numberToFixed [Num 100, Num 100, Num 100] 0 (Num 10)
      (getCumulativeWidths [Num 100, Num 100, Num 100]) fractional_min_editor
     = [Num 60, Num 100, Num 100]"
  by (simp add: calculateAdjacentWidthsByBorderPosition_def Let_def fractional_not_full
        fractional_min aset_def nminus_def rnd_numeral numberToFixed_numeral)

lemma parseInt_80: "parseInt ''80'' = Some 80"
  by (simp add: parseInt_def isWhiteSpace_def isDigit_def digitValue_def)

section \<open>The drag recompute\<close>

text \<open>
  Claim C8, as the code has it. The claim as stated fails: the code reads the configured
  \<open>minWidth\<close> with \<open>parseInt\<close>, which drops a fraction, so with a configured minimum
  of 60.9 a column dragged to the left is returned with width 60.
\<close>

theorem resized_width_below_configured_min:
  "insertTable_minWidth fractional_min_editor = Some ''60.9'' \<and>
   decimalValue ''60.9'' = 609 / 10 \<and>
   calculateAdjacentWidthsByBorderPosition numberToFixed [Num 100, Num 100, Num 100] 0 (Num 10)
      (getCumulativeWidths [Num 100, Num 100, Num 100]) fractional_min_editor
     = [Num 60, Num 100, Num 100] \<and>
   \<not> nge (Num 60) (Num (decimalValue ''60.9''))"
  using drag_below_min decimalValue_60_9
  by (simp add: fractional_min_editor_def)

text \<open>
  Claim C8, amended. Let \<open>b\<close> be the whole number that \<open>parseInt\<close> reads from the
  configured \<open>minWidth\<close>, or 60 when \<open>minWidth\<close> is absent, does not start with a number
  or reads as zero, and let \<open>b\<close> be below \<open>2 ^ 46\<close> in magnitude. For an index inside
  the array, a finite width change or mouse position, and a current width and a left
  boundary that are not \<open>NaN\<close>, the width that \<open>calculateAdjacentWidths\<close> and
  \<open>calculateAdjacentWidthsByBorderPosition\<close> (in either mode) return for the resized
  column is at least \<open>b\<close>, in double arithmetic. The helper \<open>numberToFixed\<close> is any
  function that does not take a number that is at least \<open>b\<close> below \<open>b\<close>.
\<close>

theorem resized_width_at_least_min:
  assumes i0: "0 \<le> i" and i1: "i < int (length cws)"
    and b: "b = (case insertTable_minWidth e of
                   None \<Rightarrow> 60
                 | Some s \<Rightarrow> (case parseInt s of None \<Rightarrow> 60 | Some n \<Rightarrow> if n = 0 then 60 else n))"
    and small: "\<bar>b\<bar> < 2 ^ 46"
    and nf: "\<forall>v. nge v (Num (of_int b)) \<longrightarrow> nge (nf v) (Num (of_int b))"
    and w: "aget cws i \<noteq> NaN"
    and l: "i = 0 \<or> aget cums (i - 1) \<noteq> NaN"
  shows "nge (aget (calculateAdjacentWidths cws i (Num d) e) i) (Num (of_int b)) \<and>
         nge (aget (calculateAdjacentWidthsByBorderPosition nf cws i (Num m) cums e) i)
             (Num (of_int b))"
proof
  have mb: "minColumnWidth e = b"
    by (simp add: minColumnWidth_def parseInt_or_def b split: option.splits)
       (simp add: parseInt_def isWhiteSpace_def isDigit_def digitValue_def)
  have "nge (Math_max (Num (of_int b)) (nplus (aget cws i) (Num d))) (Num (of_int b))"
    using w by (intro Math_max_ge nplus_finite_not_NaN)
  then have "nge (ndiv (Math_floor (ntimes (Math_max (Num (of_int b)) (nplus (aget cws i) (Num d)))
                 (Num 100))) (Num 100)) (Num (of_int b))"
    using small by (rule floor2_ge)
  then show "nge (aget (calculateAdjacentWidths cws i (Num d) e) i) (Num (of_int b))"
    using i0 i1 by (simp add: calculateAdjacentWidths_def Let_def aget_aset_same mb)
next
  have mb: "minColumnWidth e = b"
    by (simp add: minColumnWidth_def parseInt_or_def b split: option.splits)
       (simp add: parseInt_def isWhiteSpace_def isDigit_def digitValue_def)
  have "(if i = 0 then Num 0 else aget cums (i - 1)) \<noteq> NaN" using l by auto
  then have "nge (Math_max (Num (of_int b))
                (nminus (Num m) (if i = 0 then Num 0 else aget cums (i - 1)))) (Num (of_int b))"
    by (intro Math_max_ge nminus_finite_not_NaN)
  then have "nge (ndiv (Math_floor (ntimes (Math_max (Num (of_int b))
                (nminus (Num m) (if i = 0 then Num 0 else aget cums (i - 1)))) (Num 100))) (Num 100))
              (Num (of_int b))"
    using small by (rule floor2_ge)
  with nf have "nge (nf (ndiv (Math_floor (ntimes (Math_max (Num (of_int b))
                (nminus (Num m) (if i = 0 then Num 0 else aget cums (i - 1)))) (Num 100))) (Num 100)))
              (Num (of_int b))"
    by blast
  then show "nge (aget (calculateAdjacentWidthsByBorderPosition nf cws i (Num m) cums e) i)
             (Num (of_int b))"
    by (simp only: border_at_index [OF i0 i1] mb)
qed


theorem resized_width_at_least_min_witness:
  "(0::int) \<le> 1 \<and> (1::int) < int (length [Num 100, Num 100, Num 100]) \<and>
   insertTable_minWidth wide_min_editor = Some ''80'' \<and> parseInt ''80'' = Some 80 \<and>
   \<bar>80 :: int\<bar> < 2 ^ 46 \<and>
   aget [Num 100, Num 100, Num 100] 1 \<noteq> NaN \<and>
   aget (getCumulativeWidths [Num 100, Num 100, Num 100]) (1 - 1) \<noteq> NaN \<and>
   nge (aget (calculateAdjacentWidths [Num 100, Num 100, Num 100] 1 (Num (- 80)) wide_min_editor) 1)
       (Num 80) \<and>
   nge (aget (calculateAdjacentWidthsByBorderPosition numberToFixed [Num 100, Num 100, Num 100] 1
                (Num 110) (getCumulativeWidths [Num 100, Num 100, Num 100]) wide_min_editor) 1)
       (Num 80)"
proof -
  have b: "(80::int) = (case insertTable_minWidth wide_min_editor of
                   None \<Rightarrow> 60
                 | Some s \<Rightarrow> (case parseInt s of None \<Rightarrow> 60 | Some n \<Rightarrow> if n = 0 then 60 else n))"
    using parseInt_80 by (simp add: wide_min_editor_def)
  have small: "\<bar>80 :: int\<bar> < 2 ^ 46" by simp
  have nf: "\<forall>v. nge v (Num (of_int 80)) \<longrightarrow> nge (numberToFixed v) (Num (of_int 80))"
    using numberToFixed_keeps_bound [OF small] by blast
  have w: "aget [Num 100, Num 100, Num 100] 1 \<noteq> NaN" by (simp add: aget_def)
  have c: "aget (getCumulativeWidths [Num 100, Num 100, Num 100]) (1 - 1) \<noteq> NaN"
    by (simp add: cumulative_hundreds aget_def)
  then have l: "(1::int) = 0 \<or> aget (getCumulativeWidths [Num 100, Num 100, Num 100]) (1 - 1) \<noteq> NaN"
    by simp
  from resized_width_at_least_min [where i = 1 and cws = "[Num 100, Num 100, Num 100]"
      and b = 80 and e = wide_min_editor and nf = numberToFixed and d = "- 80" and m = 110
      and cums = "getCumulativeWidths [Num 100, Num 100, Num 100]", OF _ _ b small nf w l]
  have "nge (aget (calculateAdjacentWidths [Num 100, Num 100, Num 100] 1 (Num (- 80)) wide_min_editor) 1)
       (Num 80) \<and>
   nge (aget (calculateAdjacentWidthsByBorderPosition numberToFixed [Num 100, Num 100, Num 100] 1
                (Num 110) (getCumulativeWidths [Num 100, Num 100, Num 100]) wide_min_editor) 1)
       (Num 80)"
    by simp
  with w c parseInt_80 show ?thesis by (simp add: wide_min_editor_def)
qed

text \<open>
  Claim C9. When the selected table is not in full-width mode and the index is inside the
  array, \<open>calculateAdjacentWidthsByBorderPosition\<close> returns an array of the same length
  in which every entry other than the one at the index is the input's entry. This holds
  for every input and every helper \<open>numberToFixed\<close>.
\<close>

theorem border_position_frame:
  assumes "\<not> isFullWidthActive e" and "0 \<le> i" and "i < int (length columnWidths)"
  shows "length (calculateAdjacentWidthsByBorderPosition nf columnWidths i m cums e)
           = length columnWidths \<and>
    (\<forall>k < length columnWidths. int k \<noteq> i \<longrightarrow>
       calculateAdjacentWidthsByBorderPosition nf columnWidths i m cums e ! k = columnWidths ! k)"
  using assms
  by (auto simp add: calculateAdjacentWidthsByBorderPosition_def Let_def aset_def)

theorem border_position_frame_witness:
  "\<not> isFullWidthActive intrinsic_editor \<and> (0::int) \<le> 1 \<and>
   (1::int) < int (length [Num 100, Num 100, Num 100]) \<and>
   calculateAdjacentWidthsByBorderPosition numberToFixed [Num 100, Num 100, Num 100] 1 (Num 250)
       (getCumulativeWidths [Num 100, Num 100, Num 100]) intrinsic_editor ! 0 = Num 100 \<and>
   calculateAdjacentWidthsByBorderPosition numberToFixed [Num 100, Num 100, Num 100] 1 (Num 250)
       (getCumulativeWidths [Num 100, Num 100, Num 100]) intrinsic_editor ! 2 = Num 100"
proof -
  have a: "\<not> isFullWidthActive intrinsic_editor"
    by (simp add: isFullWidthActive_def getSelectedNodeByType_def intrinsic_editor_def)
  show ?thesis
    using a border_position_frame [where e = intrinsic_editor and i = 1
        and columnWidths = "[Num 100, Num 100, Num 100]" and nf = numberToFixed and m = "Num 250"
        and cums = "getCumulativeWidths [Num 100, Num 100, Num 100]", OF a]
    by simp
qed

text \<open>
  Claim C10. For every input, \<open>calculateAdjacentWidthsByBorderPosition\<close> returns an array
  of the length of \<open>columnWidths\<close>; when the index is negative or at least that length, the
  guard returns the copy of the input before any element is read or written.
\<close>

theorem border_position_length:
  "length (calculateAdjacentWidthsByBorderPosition nf columnWidths i m cums e) = length columnWidths \<and>
   (i < 0 \<or> i \<ge> int (length columnWidths) \<longrightarrow>
      calculateAdjacentWidthsByBorderPosition nf columnWidths i m cums e = columnWidths)"
  by (simp add: calculateAdjacentWidthsByBorderPosition_def Let_def length_aset_inside)

theorem border_position_length_witness:
  "(5::int) \<ge> int (length [Num 100, Num 100]) \<and>
   calculateAdjacentWidthsByBorderPosition numberToFixed [Num 100, Num 100] 5 (Num 30) []
     full_width_editor = [Num 100, Num 100] \<and>
   length (calculateAdjacentWidthsByBorderPosition numberToFixed [Num 100, Num 100] 5 (Num 30) []
     full_width_editor) = 2"
  using border_position_length [where columnWidths = "[Num 100, Num 100]" and i = 5
      and nf = numberToFixed and m = "Num 30" and cums = "[]" and e = full_width_editor]
  by simp

section \<open>Releasing the mouse\<close>

text \<open>
  Claim C7. After \<open>onMouseUp\<close>, whatever the state before, \<open>isSelectionOperation\<close> and
  \<open>isMouseDownForResize\<close> are false, \<open>editorWhenMouseDown\<close> is null and the cursor style
  of the document body is the empty string again; the two listeners are unbound and no
  editor is touched.
\<close>

theorem onMouseUp_clears_drag_state:
  "isSelectionOperation (onMouseUp s) = False \<and>
   isMouseDownForResize (onMouseUp s) = False \<and>
   editorWhenMouseDown (onMouseUp s) = None \<and>
   body_cursor (onMouseUp s) = [] \<and>
   mousemove_bound (onMouseUp s) = False \<and>
   mouseup_bound (onMouseUp s) = False \<and>
   editors (onMouseUp s) = editors s"
  by (simp add: onMouseUp_def)

section \<open>The drag recompute in full-width mode\<close>

lemma full_width_active: "isFullWidthActive full_width_editor"
  by (simp add: isFullWidthActive_def getSelectedNodeByType_def full_width_editor_def)

lemma full_width_min: "minColumnWidth full_width_editor = 60"
  by (simp add: minColumnWidth_default full_width_editor_def)

lemma drag_to_380:
  "calculateAdjacentWidthsByBorderPosition numberToFixed [Num 200, Num 200] 0 (Num 380)
      (getCumulativeWidths [Num 200, Num 200]) full_width_editor = [Num 380, Num 60]"
  by (simp add: calculateAdjacentWidthsByBorderPosition_def Let_def full_width_active
        full_width_min aget_def aset_def ngt_def nminus_def rnd_numeral numberToFixed_numeral)

lemma drag_to_250:
  "calculateAdjacentWidthsByBorderPosition numberToFixed [Num 200, Num 200] 0 (Num 250)
      (getCumulativeWidths [Num 200, Num 200]) full_width_editor = [Num 250, Num 150]"
  by (simp add: calculateAdjacentWidthsByBorderPosition_def Let_def full_width_active
        full_width_min aget_def aset_def ngt_def nminus_def rnd_numeral numberToFixed_numeral)

text \<open>
  Claim C1, at an input where the code does not do what the claim and the code's own
  comment say. The full-width branch is introduced in the source as adjusting the
  neighbouring column to keep the total width of the table unchanged. The neighbour
  that gives up width is held at the minimum column width, but the resized column is
  not limited in turn: dragging the first border of two columns of 200 to 380 returns
  380 and 60, which sum to 440 and not to 400.
\<close>

theorem full_width_drag_breaks_sum:
  "isFullWidthActive full_width_editor \<and>
   calculateAdjacentWidthsByBorderPosition numberToFixed [Num 200, Num 200] 0 (Num 380)
      (getCumulativeWidths [Num 200, Num 200]) full_width_editor = [Num 380, Num 60] \<and>
   sum_widths [Num 200, Num 200] = Num 400 \<and>
   sum_widths [Num 380, Num 60] = Num 440 \<and>
   sum_widths (calculateAdjacentWidthsByBorderPosition numberToFixed [Num 200, Num 200] 0 (Num 380)
      (getCumulativeWidths [Num 200, Num 200]) full_width_editor) \<noteq> sum_widths [Num 200, Num 200]"
  using full_width_active by (simp add: drag_to_380 sum_widths_def rnd_numeral)


section \<open>The full-width toggle: what exec does\<close>

lemma isDisabled_iff:
  "isDisabled e \<longleftrightarrow>
     selection e = None \<or> selection e = Some Expanded \<or> getSelectedNodeByType e = None"
proof (cases "selection e")
  case None
  then show ?thesis by (simp add: isDisabled_def)
next
  case (Some sel)
  then show ?thesis by (cases sel) (simp_all add: isDisabled_def)
qed

lemma exec_disabled: "isDisabled e \<Longrightarrow> exec e = e"
  by (simp add: exec_def)

lemma merge_width:
  "merge_props t (no_props\<lparr>el_width := Some w\<rparr>) = t\<lparr>el_width := Some w\<rparr>"
  by (simp add: merge_props_def no_props_def)

lemma merge_width_columnWidths:
  "merge_props t (no_props\<lparr>el_width := Some w, el_columnWidths := Some v\<rparr>)
     = t\<lparr>el_width := Some w, el_columnWidths := Some v\<rparr>"
  by (simp add: merge_props_def no_props_def)

lemma getSelected_update:
  "getSelectedNodeByType e = Some t \<Longrightarrow>
   getSelectedNodeByType (e\<lparr>tableAtSelection := Some x\<rparr>) = Some x"
  by (cases "selection e") (simp_all add: getSelectedNodeByType_def)

lemma exec_deactivate:
  assumes "\<not> isDisabled e" and "isFullWidthActive e" and "getSelectedNodeByType e = Some t"
  shows "exec e = e\<lparr>tableAtSelection := Some (t\<lparr>el_width := Some ''auto''\<rparr>)\<rparr>"
  using assms by (simp add: exec_def isActive_def setNodes_def merge_width)

lemma parseInt_or_Some: "parseInt s = Some n \<Longrightarrow> parseInt_or s 0 = n"
  by (simp add: parseInt_or_def)

lemma exec_activate:
  assumes "\<not> isDisabled e" and "\<not> isFullWidthActive e"
    and "getSelectedNodeByType e = Some t" and "el_columnWidths t = Some ws" and "ws \<noteq> []"
    and "table_container (toDOMNode e) = Some c" and "truthTableDoms c = st # rest"
    and tw: "parseInt (replace ''px'' [] (style_width st)) = Some tw"
    and tpl: "parseInt (style_paddingLeft st) = Some tpl"
    and tpr: "parseInt (style_paddingRight st) = Some tpr"
    and cpl: "parseInt (style_paddingLeft (container_style c)) = Some cpl"
    and cpr: "parseInt (style_paddingRight (container_style c)) = Some cpr"
  shows "exec e = e\<lparr>tableAtSelection := Some (t\<lparr>el_width := Some ''100%'',
           el_columnWidths := Some
             (map (\<lambda>w. ntimes (toFixed2 (ndiv w
                      (Num (of_int (max (60 * int (length ws)) (tw - (tpl + tpr)))))))
                               (Num (of_int (clientWidth c - (cpl + cpr))))) ws)\<rparr>)\<rparr>"
proof -
  have a: "max (int (length ws) * 60) (tw - tpl - tpr) = max (60 * int (length ws)) (tw - (tpl + tpr))"
    by (simp add: mult.commute diff_diff_eq)
  have b: "clientWidth c - cpl - cpr = clientWidth c - (cpl + cpr)" by simp
  have "exec e = e\<lparr>tableAtSelection := Some (t\<lparr>el_width := Some ''100%'',
           el_columnWidths := Some
             (map (\<lambda>w. ntimes (toFixed2 (ndiv w
                      (Num (of_int (max (int (length ws) * 60) (tw - tpl - tpr))))))
                               (Num (of_int (clientWidth c - cpl - cpr)))) ws)\<rparr>)\<rparr>"
    using assms(1-7)
    by (simp add: exec_def isActive_def setNodes_def merge_width_columnWidths Let_def tw
          parseInt_or_Some [OF tpl] parseInt_or_Some [OF tpr] parseInt_or_Some [OF cpl]
          parseInt_or_Some [OF cpr] del: of_int_diff of_int_mult of_int_max)
  then show ?thesis by (simp only: a b)
qed

lemma exec_no_container:
  assumes "\<not> isFullWidthActive e" and "table_container (toDOMNode e) = None"
  shows "exec e = e"
proof (cases "getSelectedNodeByType e")
  case None
  then show ?thesis by (simp add: exec_def isActive_def setNodes_def)
next
  case (Some t)
  with assms show ?thesis by (simp add: exec_def isActive_def Let_def)
qed

lemma exec_no_table:
  assumes "\<not> isFullWidthActive e" and "table_container (toDOMNode e) = Some c"
    and "truthTableDoms c = []"
  shows "exec e = e"
proof (cases "getSelectedNodeByType e")
  case None
  then show ?thesis by (simp add: exec_def isActive_def setNodes_def)
next
  case (Some t)
  with assms show ?thesis by (simp add: exec_def isActive_def Let_def)
qed

lemma exec_no_columnWidths:
  assumes "\<not> isFullWidthActive e" and "getSelectedNodeByType e = Some t"
    and "el_columnWidths t = None \<or> el_columnWidths t = Some []"
  shows "exec e = e"
proof (cases "table_container (toDOMNode e)")
  case None
  with assms(1) show ?thesis by (rule exec_no_container)
next
  case (Some c)
  with assms show ?thesis by (auto simp add: exec_def isActive_def Let_def)
qed

lemma handleCellBorderVisible_disabled:
  "editor_disabled (editors s ed) \<Longrightarrow> handleCellBorderVisible s ed elemNode ev scrollWidth = s"
  by (simp add: handleCellBorderVisible_def)


lemma parse_230px: "parseInt (replace ''px'' [] ''230px'') = Some 230"
  by (simp add: parseInt_def isWhiteSpace_def isDigit_def digitValue_def)


lemma parse_paddings:
  "parseInt ''0px'' = Some 0" "parseInt ''5px'' = Some 5" "parseInt ''7px'' = Some 7"
  "parseInt ''10px'' = Some 10" "parseInt ''20px'' = Some 20"
  by (simp_all add: parseInt_def isWhiteSpace_def isDigit_def digitValue_def)






lemma rnd_3_200: "rnd (3 / 200) = Num (1080863910568919 / 72057594037927936)"
  using rnd_cert [of "- 7" "3 / 200" 8646911284551352] by simp

lemma rnd_1_100: "rnd (1 / 100) = Num (5764607523034235 / 576460752303423488)"
  using rnd_cert [of "- 7" "1 / 100" 5764607523034235] by simp

lemma rnd_6: "rnd (5764607523034235 / 576460752303423488 * 600) = Num 6"
  using rnd_cert [of 2 "5764607523034235 / 576460752303423488 * 600" 6755399441055744] by simp

lemma toFixed2_3_200:
  "toFixed2 (Num (1080863910568919 / 72057594037927936)) = Num (5764607523034235 / 576460752303423488)"
proof -
  have "\<lfloor>\<bar>1080863910568919 / 72057594037927936 :: rat\<bar> * 100 + 1 / 2\<rfloor> = 1"
    by (rule floor_unique) simp_all
  then show ?thesis using rnd_1_100 by simp
qed

lemma share_3_of_200:
  "ntimes (toFixed2 (ndiv (Num 3) (Num 200))) (Num 600) = Num 6"
  using rnd_3_200 toFixed2_3_200 rnd_6 by simp

lemma rnd_197_200: "rnd (197 / 200) = Num (8872091265919877 / 9007199254740992)"
  using rnd_cert [of "- 1" "197 / 200" 8872091265919877] by simp

lemma rnd_98_100: "rnd (98 / 100) = Num (2206763817411543 / 2251799813685248)"
  using rnd_cert [of "- 1" "98 / 100" 8827055269646172] by simp

lemma rnd_588: "rnd (2206763817411543 / 2251799813685248 * 600) = Num 588"
  using rnd_cert [of 9 "2206763817411543 / 2251799813685248 * 600" 5172102697058304] by simp

lemma toFixed2_197_200:
  "toFixed2 (Num (8872091265919877 / 9007199254740992)) = Num (2206763817411543 / 2251799813685248)"
proof -
  have "\<lfloor>\<bar>8872091265919877 / 9007199254740992 :: rat\<bar> * 100 + 1 / 2\<rfloor> = 98"
    by (rule floor_unique) simp_all
  then show ?thesis using rnd_98_100 by simp
qed

lemma share_197_of_200:
  "ntimes (toFixed2 (ndiv (Num 197) (Num 200))) (Num 600) = Num 588"
  using rnd_197_200 toFixed2_197_200 rnd_588 by simp

text \<open>
  Claim C2. When \<open>exec\<close> runs on a selected table that is not full-width, with the
  container and a \<open>table\<close> element in the DOM, a non-empty \<open>columnWidths\<close>, a computed
  table width that reads as the number \<open>tw\<close> and paddings that read as \<open>tpl\<close>, \<open>tpr\<close>
  (table) and \<open>cpl\<close>, \<open>cpr\<close> (container), every new column width is, in double
  arithmetic, the old one divided by the current table width, that quotient rounded to
  two decimals, times the available width of the container. The current table width is
  the larger of 60 times the number of columns and \<open>tw\<close> less the table's horizontal
  padding; the available width is the container's \<open>clientWidth\<close> less its horizontal
  padding.
\<close>

theorem full_width_columnWidths:
  assumes "\<not> isDisabled e" and "\<not> isFullWidthActive e"
    and "getSelectedNodeByType e = Some t" and "el_columnWidths t = Some ws" and "ws \<noteq> []"
    and "table_container (toDOMNode e) = Some c" and "truthTableDoms c = st # rest"
    and "parseInt (replace ''px'' [] (style_width st)) = Some tw"
    and "parseInt (style_paddingLeft st) = Some tpl"
    and "parseInt (style_paddingRight st) = Some tpr"
    and "parseInt (style_paddingLeft (container_style c)) = Some cpl"
    and "parseInt (style_paddingRight (container_style c)) = Some cpr"
  shows "\<exists>t' ns. getSelectedNodeByType (exec e) = Some t' \<and> el_columnWidths t' = Some ns \<and>
           length ns = length ws \<and>
           (\<forall>k < length ws. ns ! k =
              ntimes (toFixed2 (ndiv (ws ! k)
                        (Num (of_int (max (60 * int (length ws)) (tw - (tpl + tpr)))))))
                     (Num (of_int (clientWidth c - (cpl + cpr)))))"
  using assms(3)
  by (simp add: exec_activate [OF assms] getSelected_update
        del: of_int_diff of_int_mult of_int_max of_int_add)


theorem full_width_columnWidths_witness:
  "\<not> isDisabled padded_editor \<and> \<not> isFullWidthActive padded_editor \<and>
   parseInt (replace ''px'' [] (style_width padded_table_style)) = Some 230 \<and>
   parseInt (style_paddingLeft padded_table_style) = Some 10 \<and>
   parseInt (style_paddingRight padded_table_style) = Some 20 \<and>
   parseInt (style_paddingLeft (container_style padded_container)) = Some 5 \<and>
   parseInt (style_paddingRight (container_style padded_container)) = Some 7 \<and>
   clientWidth padded_container = 612 \<and>
   (\<exists>t' ns. getSelectedNodeByType (exec padded_editor) = Some t' \<and>
       el_columnWidths t' = Some ns \<and> length ns = 2 \<and> ns ! 0 = Num 6 \<and> ns ! 1 = Num 588)"
proof -
  have en: "\<not> isDisabled padded_editor"
    by (simp add: isDisabled_def getSelectedNodeByType_def padded_editor_def)
  have nf: "\<not> isFullWidthActive padded_editor"
    by (simp add: isFullWidthActive_def getSelectedNodeByType_def padded_editor_def)
  have t: "getSelectedNodeByType padded_editor = Some
        \<lparr>el_width = Some ''auto'', el_columnWidths = Some [Num 3, Num 197],
         el_isHoverCellBorder = None, el_resizingIndex = None, el_isResizing = None\<rparr>"
    by (simp add: getSelectedNodeByType_def padded_editor_def)
  have c: "table_container (toDOMNode padded_editor) = Some padded_container"
    by (simp add: padded_editor_def)
  have d: "truthTableDoms padded_container = padded_table_style # []"
    by (simp add: padded_container_def)
  have p: "parseInt (replace ''px'' [] (style_width padded_table_style)) = Some 230"
    "parseInt (style_paddingLeft padded_table_style) = Some 10"
    "parseInt (style_paddingRight padded_table_style) = Some 20"
    "parseInt (style_paddingLeft (container_style padded_container)) = Some 5"
    "parseInt (style_paddingRight (container_style padded_container)) = Some 7"
    using parse_230px parse_paddings
    by (simp_all add: padded_table_style_def padded_container_def)
  have cw: "clientWidth padded_container = 612" by (simp add: padded_container_def)
  from full_width_columnWidths [OF en nf t _ _ c d p, of "[Num 3, Num 197]"]
  obtain t' ns where r: "getSelectedNodeByType (exec padded_editor) = Some t'"
      "el_columnWidths t' = Some ns" "length ns = length [Num 3, Num 197]"
      "\<forall>k < length [Num 3, Num 197]. ns ! k =
          ntimes (toFixed2 (ndiv ([Num 3, Num 197] ! k)
                    (Num (of_int (max (60 * int (length [Num 3, Num 197])) (230 - (10 + 20)))))))
                 (Num (of_int (clientWidth padded_container - (5 + 7))))"
    by auto
  from r(4) have "ns ! 0 = ntimes (toFixed2 (ndiv (Num 3) (Num 200))) (Num 600)"
    by (simp add: cw)
  then have n0: "ns ! 0 = Num 6" by (simp only: share_3_of_200)
  from r(4) have "ns ! 1 = ntimes (toFixed2 (ndiv (Num 197) (Num 200))) (Num 600)"
    by (simp add: cw)
  then have n1: "ns ! 1 = Num 588" by (simp only: share_197_of_200)
  from r(1-3) n0 n1 en nf p cw show ?thesis by auto
qed

section \<open>The sum of the full-width column widths\<close>






text \<open>
  Claim C6. When the selected table is full-width, \<open>exec\<close> changes nothing but the
  \<open>width\<close> of the table, which becomes \<open>auto\<close> when the command is enabled; the column
  widths, like every other property, stay as they were.
\<close>

theorem deactivate_sets_only_width:
  assumes "isFullWidthActive e"
  shows "\<exists>t. getSelectedNodeByType e = Some t \<and>
           exec e = (if isDisabled e then e
                     else e\<lparr>tableAtSelection := Some (t\<lparr>el_width := Some ''auto''\<rparr>)\<rparr>) \<and>
           (\<exists>t'. getSelectedNodeByType (exec e) = Some t' \<and>
                  el_columnWidths t' = el_columnWidths t \<and>
                  t' = t\<lparr>el_width := el_width t'\<rparr>)"
proof -
  from assms obtain t where t: "getSelectedNodeByType e = Some t"
    by (auto simp add: isFullWidthActive_def split: option.splits)
  show ?thesis
  proof (cases "isDisabled e")
    case True
    with t show ?thesis by (simp add: exec_disabled)
  next
    case False
    with t assms show ?thesis by (simp add: exec_deactivate getSelected_update)
  qed
qed

theorem deactivate_sets_only_width_witness:
  "isFullWidthActive full_width_editor \<and> \<not> isDisabled full_width_editor \<and>
   exec full_width_editor = full_width_editor\<lparr>tableAtSelection := Some
        \<lparr>el_width = Some ''auto'', el_columnWidths = Some [Num 200, Num 200],
         el_isHoverCellBorder = Some True, el_resizingIndex = Some 0, el_isResizing = None\<rparr>\<rparr>"
proof -
  have a: "isFullWidthActive full_width_editor"
    by (simp add: isFullWidthActive_def getSelectedNodeByType_def full_width_editor_def)
  have d: "\<not> isDisabled full_width_editor"
    by (simp add: isDisabled_def getSelectedNodeByType_def full_width_editor_def)
  have t: "getSelectedNodeByType full_width_editor = Some
        \<lparr>el_width = Some ''100%'', el_columnWidths = Some [Num 200, Num 200],
         el_isHoverCellBorder = Some True, el_resizingIndex = Some 0, el_isResizing = None\<rparr>"
    by (simp add: getSelectedNodeByType_def full_width_editor_def)
  from deactivate_sets_only_width [OF a] a d t show ?thesis by auto
qed

text \<open>
  Claim C4, as the code has it. The claim as stated fails: on a full-width table \<open>exec\<close>
  resets the width before it looks at the DOM or at the column widths, so a table without
  a container and without column widths is still changed.
\<close>

theorem missing_context_counterexample:
  "table_container (toDOMNode bare_full_width_editor) = None \<and>
   getSelectedNodeByType bare_full_width_editor = Some
     \<lparr>el_width = Some ''100%'', el_columnWidths = None,
      el_isHoverCellBorder = None, el_resizingIndex = None, el_isResizing = None\<rparr> \<and>
   getSelectedNodeByType (exec bare_full_width_editor) = Some
     \<lparr>el_width = Some ''auto'', el_columnWidths = None,
      el_isHoverCellBorder = None, el_resizingIndex = None, el_isResizing = None\<rparr> \<and>
   exec bare_full_width_editor \<noteq> bare_full_width_editor"
proof -
  have a: "isFullWidthActive bare_full_width_editor"
    by (simp add: isFullWidthActive_def getSelectedNodeByType_def bare_full_width_editor_def)
  have d: "\<not> isDisabled bare_full_width_editor"
    by (simp add: isDisabled_def getSelectedNodeByType_def bare_full_width_editor_def)
  have t: "getSelectedNodeByType bare_full_width_editor = Some
     \<lparr>el_width = Some ''100%'', el_columnWidths = None,
      el_isHoverCellBorder = None, el_resizingIndex = None, el_isResizing = None\<rparr>"
    by (simp add: getSelectedNodeByType_def bare_full_width_editor_def)
  have r: "getSelectedNodeByType (exec bare_full_width_editor) = Some
     \<lparr>el_width = Some ''auto'', el_columnWidths = None,
      el_isHoverCellBorder = None, el_resizingIndex = None, el_isResizing = None\<rparr>"
    using t by (simp add: exec_deactivate [OF d a t] getSelected_update)
  have "exec bare_full_width_editor \<noteq> bare_full_width_editor"
  proof
    assume "exec bare_full_width_editor = bare_full_width_editor"
    with r t show False by simp
  qed
  with t r show ?thesis by (simp add: bare_full_width_editor_def)
qed

text \<open>
  Claim C4, amended. \<open>exec\<close> returns the editor unchanged when the selection is null or
  not collapsed or no table is selected; when the table is not full-width, it also does so
  when the container or the inner \<open>table\<close> element is absent or \<open>columnWidths\<close> is empty.
  \<open>handleCellBorderVisible\<close> returns the page unchanged when the editor is disabled.
  Neither has a path that raises: their results carry no error.
\<close>

theorem missing_context_is_noop:
  "(selection e = None \<or> selection e = Some Expanded \<or> getSelectedNodeByType e = None
      \<longrightarrow> exec e = e) \<and>
   (\<not> isFullWidthActive e \<and>
      (table_container (toDOMNode e) = None \<or>
       (\<exists>c. table_container (toDOMNode e) = Some c \<and> truthTableDoms c = []) \<or>
       (\<exists>t. getSelectedNodeByType e = Some t \<and>
            (el_columnWidths t = None \<or> el_columnWidths t = Some [])))
      \<longrightarrow> exec e = e) \<and>
   (editor_disabled (editors s ed)
      \<longrightarrow> handleCellBorderVisible s ed elemNode ev scrollWidth = s)"
proof (intro conjI impI)
  assume "selection e = None \<or> selection e = Some Expanded \<or> getSelectedNodeByType e = None"
  then have "isDisabled e" by (simp only: isDisabled_iff)
  then show "exec e = e" by (rule exec_disabled)
next
  assume a: "\<not> isFullWidthActive e \<and>
      (table_container (toDOMNode e) = None \<or>
       (\<exists>c. table_container (toDOMNode e) = Some c \<and> truthTableDoms c = []) \<or>
       (\<exists>t. getSelectedNodeByType e = Some t \<and>
            (el_columnWidths t = None \<or> el_columnWidths t = Some [])))"
  then show "exec e = e"
    using exec_no_container exec_no_table exec_no_columnWidths by blast
next
  assume "editor_disabled (editors s ed)"
  then show "handleCellBorderVisible s ed elemNode ev scrollWidth = s"
    by (rule handleCellBorderVisible_disabled)
qed


theorem missing_context_is_noop_witness:
  "selection unselected_editor = None \<and> exec unselected_editor = unselected_editor \<and>
   \<not> isFullWidthActive no_container_editor \<and>
   table_container (toDOMNode no_container_editor) = None \<and>
   exec no_container_editor = no_container_editor \<and>
   editor_disabled (editors (initial_page (\<lambda>_. disabled_editor)) 0) \<and>
   handleCellBorderVisible (initial_page (\<lambda>_. disabled_editor)) 0 no_props
       \<lparr>hover_clientX = 0, hover_target = None\<rparr> (Num 0)
     = initial_page (\<lambda>_. disabled_editor)"
proof -
  have a: "selection unselected_editor = None"
    by (simp add: unselected_editor_def)
  have b: "\<not> isFullWidthActive no_container_editor"
    by (simp add: isFullWidthActive_def getSelectedNodeByType_def no_container_editor_def
          intrinsic_editor_def)
  have c: "table_container (toDOMNode no_container_editor) = None"
    by (simp add: no_container_editor_def)
  have d: "editor_disabled (editors (initial_page (\<lambda>_. disabled_editor)) 0)"
    by (simp add: initial_page_def disabled_editor_def)
  from missing_context_is_noop [of unselected_editor] a
  have 1: "exec unselected_editor = unselected_editor" by blast
  from missing_context_is_noop [of no_container_editor] b c
  have 2: "exec no_container_editor = no_container_editor" by blast
  from missing_context_is_noop [of _ "initial_page (\<lambda>_. disabled_editor)" 0 no_props
      "\<lparr>hover_clientX = 0, hover_target = None\<rparr>" "Num 0"] d
  have 3: "handleCellBorderVisible (initial_page (\<lambda>_. disabled_editor)) 0 no_props
       \<lparr>hover_clientX = 0, hover_target = None\<rparr> (Num 0)
     = initial_page (\<lambda>_. disabled_editor)" by blast
  from a b c d 1 2 3 show ?thesis by blast
qed

section \<open>Commits of a drag\<close>

lemma run_snoc: "run nf s (es @ [e]) = step nf (run nf s es) e"
  by (simp add: run_def)

lemma onMouseMove_commit:
  assumes "onMouseMove nf s ev = Inr s'" and "s' \<noteq> s"
  shows "isMouseDownForResize s \<and> editorWhenMouseDown s \<noteq> None"
  using assms by (auto simp add: onMouseMove_def split: if_splits option.splits)

lemma in_drag_snoc: "in_drag nf eds es \<Longrightarrow> e \<noteq> MouseUp \<Longrightarrow> in_drag nf eds (es @ [e])"
  unfolding in_drag_def
proof (elim exE conjE)
  fix pre d post
  assume "es = pre @ MouseDown d # post" "on_resizer d"
    "editorWhenMouseDown (run nf (initial_page eds) pre) \<noteq> None" "MouseUp \<notin> set post" "e \<noteq> MouseUp"
  then have "es @ [e] = pre @ MouseDown d # (post @ [e]) \<and> on_resizer d \<and>
     editorWhenMouseDown (run nf (initial_page eds) pre) \<noteq> None \<and> MouseUp \<notin> set (post @ [e])"
    by auto
  then show "\<exists>pre d post. es @ [e] = pre @ MouseDown d # post \<and> on_resizer d \<and>
        editorWhenMouseDown (run nf (initial_page eds) pre) \<noteq> None \<and> MouseUp \<notin> set post"
    by blast
qed

lemma onMouseMove_flag:
  "onMouseMove nf s ev = Inr s' \<Longrightarrow> isMouseDownForResize s' = isMouseDownForResize s"
  by (auto simp add: onMouseMove_def Let_def split: if_splits option.splits)

lemma drag_invariant:
  "isMouseDownForResize (run nf (initial_page eds) es) \<Longrightarrow> in_drag nf eds es"
proof (induction es rule: rev_induct)
  case Nil
  then show ?case by (simp add: run_def initial_page_def)
next
  case (snoc e es)
  let ?s = "run nf (initial_page eds) es"
  show ?case
  proof (cases e)
    case (MouseDown d)
    show ?thesis
    proof (cases "isMouseDownForResize ?s")
      case True
      with snoc.IH MouseDown show ?thesis by (simp add: in_drag_snoc)
    next
      case False
      with snoc.prems MouseDown
      have "on_resizer d \<and> editorWhenMouseDown ?s \<noteq> None"
        by (auto simp add: run_snoc onMouseDown_def bind_listeners_def on_resizer_def
              split: if_splits)
      then have "es @ [e] = es @ MouseDown d # [] \<and> on_resizer d \<and>
          editorWhenMouseDown (run nf (initial_page eds) es) \<noteq> None \<and> MouseUp \<notin> set []"
        using MouseDown by simp
      then show ?thesis unfolding in_drag_def by blast
    qed
  next
    case (MouseMove ev)
    with snoc.prems have "isMouseDownForResize ?s"
      by (auto simp add: run_snoc onMouseMove_flag split: sum.splits)
    with snoc.IH MouseMove show ?thesis by (simp add: in_drag_snoc)
  next
    case MouseUp
    with snoc.prems show ?thesis by (simp add: run_snoc onMouseUp_def)
  next
    case (CellBorderMouseDown ed)
    with snoc.prems have "isMouseDownForResize ?s"
      by (auto simp add: run_snoc handleCellBorderMouseDown_def split: if_splits)
    with snoc.IH CellBorderMouseDown show ?thesis by (simp add: in_drag_snoc)
  next
    case (Host f)
    with snoc.prems have "isMouseDownForResize ?s"
      by (simp add: run_snoc)
    with snoc.IH Host show ?thesis by (simp add: in_drag_snoc)
  qed
qed

text \<open>
  Claim C5. Start from the page as loaded and run any sequence of handler invocations.
  If a run of \<open>onMouseMove\<close> then changes anything (it can only change a table node
  through the transform API), then \<open>isMouseDownForResize\<close> is set and an editor is
  recorded, and the sequence holds a mousedown on a column resizer, made while an editor
  was recorded, with no mouseup after it.
\<close>

theorem mousemove_commits_only_in_drag:
  assumes "onMouseMove nf (run nf (initial_page eds) es) ev = Inr s'"
    and "s' \<noteq> run nf (initial_page eds) es"
  shows "isMouseDownForResize (run nf (initial_page eds) es) \<and>
         editorWhenMouseDown (run nf (initial_page eds) es) \<noteq> None \<and>
         (\<exists>pre d post. es = pre @ MouseDown d # post \<and> on_resizer d \<and>
            editorWhenMouseDown (run nf (initial_page eds) pre) \<noteq> None \<and> MouseUp \<notin> set post)"
proof -
  from onMouseMove_commit [OF assms]
  have a: "isMouseDownForResize (run nf (initial_page eds) es)"
    and b: "editorWhenMouseDown (run nf (initial_page eds) es) \<noteq> None" by simp_all
  from drag_invariant [OF a] a b show ?thesis by (simp add: in_drag_def)
qed

lemma drag_start_page:
  "run numberToFixed (initial_page (\<lambda>_. full_width_editor)) drag_start =
     \<lparr>isSelectionOperation = False, isMouseDownForResize = True, clientXWhenMouseDown = 200,
      editorWhenMouseDown = Some 0, body_cursor = ''col-resize'', mousemove_bound = True,
      mouseup_bound = True, editors = (\<lambda>_. full_width_editor)\<rparr>"
  by (simp add: run_def drag_start_def initial_page_def handleCellBorderMouseDown_def
        onMouseDown_def resizer_down_def bind_listeners_def)

lemma drag_move_commits:
  "\<exists>s'. onMouseMove numberToFixed (run numberToFixed (initial_page (\<lambda>_. full_width_editor)) drag_start)
           drag_move = Inr s' \<and>
         s' \<noteq> run numberToFixed (initial_page (\<lambda>_. full_width_editor)) drag_start"
proof -
  let ?s = "run numberToFixed (initial_page (\<lambda>_. full_width_editor)) drag_start"
  let ?e' = "full_width_editor\<lparr>tableAtSelection := Some
        \<lparr>el_width = Some ''100%'', el_columnWidths = Some [Num 250, Num 150],
         el_isHoverCellBorder = Some True, el_resizingIndex = Some 0, el_isResizing = None\<rparr>\<rparr>"
  have t: "getSelectedNodeByType full_width_editor = Some
        \<lparr>el_width = Some ''100%'', el_columnWidths = Some [Num 200, Num 200],
         el_isHoverCellBorder = Some True, el_resizingIndex = Some 0, el_isResizing = None\<rparr>"
    by (simp add: getSelectedNodeByType_def full_width_editor_def)
  have l: "table_rect_left (toDOMNode full_width_editor) = Some 0"
    by (simp add: full_width_editor_def example_dom_def)
  have m: "onMouseMove numberToFixed ?s drag_move = Inr (?s\<lparr>editors := fun_upd (editors ?s) 0 ?e'\<rparr>)"
    by (simp add: drag_start_page onMouseMove_def Let_def t l drag_move_def drag_to_250
          setNodes_def merge_props_def no_props_def nminus_def rnd_numeral)
  have "editors (?s\<lparr>editors := fun_upd (editors ?s) 0 ?e'\<rparr>) 0 \<noteq> editors ?s 0"
    by (simp only: drag_start_page) (simp add: full_width_editor_def)
  then have "?s\<lparr>editors := fun_upd (editors ?s) 0 ?e'\<rparr> \<noteq> ?s" by metis
  with m show ?thesis by blast
qed

theorem mousemove_commits_only_in_drag_witness:
  "(\<exists>s'. onMouseMove numberToFixed (run numberToFixed (initial_page (\<lambda>_. full_width_editor)) drag_start)
           drag_move = Inr s' \<and>
         s' \<noteq> run numberToFixed (initial_page (\<lambda>_. full_width_editor)) drag_start) \<and>
   isMouseDownForResize (run numberToFixed (initial_page (\<lambda>_. full_width_editor)) drag_start) \<and>
   editorWhenMouseDown (run numberToFixed (initial_page (\<lambda>_. full_width_editor)) drag_start) \<noteq> None \<and>
   (\<exists>pre d post. drag_start = pre @ MouseDown d # post \<and> on_resizer d \<and>
      editorWhenMouseDown (run numberToFixed (initial_page (\<lambda>_. full_width_editor)) pre) \<noteq> None \<and>
      MouseUp \<notin> set post)"
proof -
  from drag_move_commits obtain s' where
    a: "onMouseMove numberToFixed (run numberToFixed (initial_page (\<lambda>_. full_width_editor)) drag_start)
           drag_move = Inr s'"
    and b: "s' \<noteq> run numberToFixed (initial_page (\<lambda>_. full_width_editor)) drag_start"
    by blast
  from mousemove_commits_only_in_drag [OF a b] drag_move_commits show ?thesis by blast
qed

end
